theory Spec2Isabelle
  imports Main "HOL-Library.Char_ord" "HOL-Library.List_Lexorder" "HOL-Library.Multiset"
begin

section \<open>Strings\<close>

text \<open>
  Python strings are modelled as \<^typ>\<open>string\<close>; a character stands for one code point
  below 256. \<open>s.strip(chars)\<close> removes, from both ends of \<open>s\<close>, every character
  that belongs to \<open>chars\<close>.
\<close>

definition strip_chars :: "char set \<Rightarrow> string \<Rightarrow> string" where
  "strip_chars cs s = rev (dropWhile (\<lambda>c. c \<in> cs) (rev (dropWhile (\<lambda>c. c \<in> cs) s)))"

text \<open>
  The normalisation of a matched endpoint path in \<open>count_endpoints\<close>:
  \<^verbatim>\<open>"/" + match.strip("/")\<close>.
\<close>

definition normalize_path :: "string \<Rightarrow> string" where
  "normalize_path m = ''/'' @ strip_chars {CHR ''/''} m"

text \<open>
  \<open>s.strip()\<close> removes the white space of Python's \<open>str.isspace\<close>
  (code points 9 to 13, 28 to 32, 133 and 160 below 256).
\<close>

definition whitespace :: "char set" where
  "whitespace = {CHR 0x09, CHR 0x0A, CHR 0x0B, CHR 0x0C, CHR 0x0D, CHR 0x1C, CHR 0x1D,
     CHR 0x1E, CHR 0x1F, CHR 0x20, CHR 0x85, CHR 0xA0}"

definition py_strip :: "string \<Rightarrow> string" where
  "py_strip s = strip_chars whitespace s"

text \<open>\<open>s.startswith(p)\<close>, \<open>s.endswith(p)\<close> and \<open>sub in s\<close>.\<close>

fun startswith :: "string \<Rightarrow> string \<Rightarrow> bool" where
  "startswith s [] = True"
| "startswith [] (p # ps) = False"
| "startswith (c # cs) (p # ps) = (c = p \<and> startswith cs ps)"

definition endswith :: "string \<Rightarrow> string \<Rightarrow> bool" where
  "endswith s p = startswith (rev s) (rev p)"

fun contains :: "string \<Rightarrow> string \<Rightarrow> bool" where
  "contains [] sub = (sub = [])"
| "contains (c # cs) sub = (startswith (c # cs) sub \<or> contains cs sub)"

text \<open>\<open>s.split(sep)[0]\<close> for a non-empty \<open>sep\<close>: the text before the first \<open>sep\<close>.\<close>

fun split_head :: "string \<Rightarrow> string \<Rightarrow> string" where
  "split_head sep [] = []"
| "split_head sep (c # cs) = (if startswith (c # cs) sep then [] else c # split_head sep cs)"

text \<open>\<open>s.split()\<close>: the maximal runs of characters that are not white space.\<close>

fun split_acc :: "string \<Rightarrow> string \<Rightarrow> string list" where
  "split_acc cur [] = (if cur = [] then [] else [rev cur])"
| "split_acc cur (c # cs) =
     (if c \<in> whitespace then (if cur = [] then split_acc [] cs else rev cur # split_acc [] cs)
      else split_acc (c # cur) cs)"

definition py_split :: "string \<Rightarrow> string list" where
  "py_split s = split_acc [] s"

text \<open>\<open>os.path.join(a, b)\<close> of \<open>posixpath\<close>, for two strings.\<close>

definition path_join :: "string \<Rightarrow> string \<Rightarrow> string" where
  "path_join a b =
     (if startswith b ''/'' then b
      else if a = [] \<or> endswith a ''/'' then a @ b
      else a @ ''/'' @ b)"

section \<open>Errors\<close>

text \<open>
  The exceptions the analysed code can meet. All of them are subclasses of Python's
  \<open>Exception\<close>, so \<open>except Exception\<close> catches each of them, whereas
  \<open>except subprocess.CalledProcessError\<close> catches only the one.
\<close>

datatype error = OSError | UnicodeDecodeError | ParseError | JSONDecodeError
  | AttributeError | TypeError | CalledProcessError | OverflowError

text \<open>A \<open>for\<close> loop over a list whose body may raise: the first exception ends the loop.\<close>

fun for_each :: "('a \<Rightarrow> 's \<Rightarrow> error + 's) \<Rightarrow> 'a list \<Rightarrow> 's \<Rightarrow> error + 's" where
  "for_each body [] s = Inr s"
| "for_each body (x # xs) s =
     (case body x s of Inl e \<Rightarrow> Inl e | Inr s' \<Rightarrow> for_each body xs s')"

text \<open>
  A \<open>try\<close> body that updates a set in place yields the exception it raised, if any,
  and the set as it stands then. \<open>except Exception: continue\<close> drops the exception
  and goes on with that set.
\<close>

definition except_continue :: "error option \<times> 's \<Rightarrow> error + 's" where
  "except_continue r = Inr (snd r)"

section \<open>The file system and the parsers\<close>

text \<open>A directory: the names of its files, and its subdirectories by name.\<close>

datatype tree = Dir "string list" "(string \<times> tree) list"

text \<open>
  \<open>os.walk(top)\<close> yields \<open>top\<close> with its files, then walks each subdirectory under
  \<open>os.path.join(top, name)\<close>; errors of the listing are ignored by \<open>os.walk\<close>.
\<close>

fun os_walk :: "string \<Rightarrow> tree \<Rightarrow> (string \<times> string list) list" where
  "os_walk path (Dir fs ds) =
     (path, fs) # concat (map (\<lambda>d. os_walk (path_join path (fst d)) (snd d)) ds)"

text \<open>
  One \<open>mvn:dependency\<close> node of a parsed POM: for each child the code looks up,
  \<open>None\<close> when \<open>find\<close> returns \<open>None\<close>, else the element's \<open>text\<close>, itself \<open>None\<close>
  for an empty element.
\<close>

record dependency =
  scope :: "string option option"
  groupId :: "string option option"
  artifactId :: "string option option"
  version :: "string option option"

text \<open>
  A text file read line by line in strict UTF-8: opening may fail; otherwise the
  iterator yields lines and may then raise (a byte that does not decode, further on).
\<close>

datatype line_file = OpenError error | Lines "string list" "error option"

text \<open>
  What the code reads from the outside, by path:
  the directory tree under a path (\<open>None\<close> when there is no such directory);
  \<open>open(p, encoding='utf-8', errors='ignore').read()\<close>;
  \<open>open(p, encoding='utf-8').read()\<close>;
  the lines of \<open>open(p, encoding='utf-8')\<close>;
  \<open>ET.parse(p).getroot().findall(".//mvn:dependencies/mvn:dependency", NS)\<close>;
  the keys of \<open>json.load(f).get("dependencies", {})\<close>;
  and the regular expression engine: \<open>re.findall\<close> of the i-th endpoint pattern
  (ignoring case), \<open>group(0)\<close> of each \<open>re.finditer\<close> match of the i-th call pattern,
  \<open>re.findall\<close> of the build.gradle pattern. The \<open>re\<close> functions do not raise.
  Last, the module names of a root POM: \<open>get_modules_from_pom(p)\<close> when \<open>p\<close>
  exists and \<open>[]\<close> otherwise; \<open>get_modules_from_pom\<close> returns \<open>[]\<close> on any exception.
\<close>

record env =
  dir_at :: "string \<Rightarrow> tree option"
  read_text_ignore :: "string \<Rightarrow> error + string"
  read_text :: "string \<Rightarrow> error + string"
  open_lines :: "string \<Rightarrow> line_file"
  et_parse :: "string \<Rightarrow> error + dependency list"
  json_dependencies :: "string \<Rightarrow> error + string list"
  endpoint_findall :: "nat \<Rightarrow> string \<Rightarrow> string list"
  call_finditer :: "nat \<Rightarrow> string \<Rightarrow> string list"
  gradle_findall :: "string \<Rightarrow> string list"
  modules_of :: "string \<Rightarrow> string list"

definition os_walk_at :: "env \<Rightarrow> string \<Rightarrow> (string \<times> string list) list" where
  "os_walk_at env path = (case dir_at env path of None \<Rightarrow> [] | Some t \<Rightarrow> os_walk path t)"

section \<open>The pattern catalog and the constants\<close>

text \<open>The method tag of each of the 15 rules of \<open>API_ENDPOINT_PATTERNS\<close>, in order.\<close>

definition API_ENDPOINT_PATTERNS :: "(nat \<times> string) list" where
  "API_ENDPOINT_PATTERNS = enumerate 0
     [''GET'', ''POST'', ''PUT'', ''DELETE'', ''ANY'', ''ANY'', ''DELETE'',
      ''GET'', ''POST'', ''PUT'', ''DELETE'', ''GET'', ''POST'', ''PUT'', ''DELETE'']"

text \<open>\<open>CALL_PATTERNS\<close> has 18 rules.\<close>

definition CALL_PATTERNS :: "nat list" where
  "CALL_PATTERNS = [0 ..< 18]"

definition UNWANTED_SCOPES :: "string set" where
  "UNWANTED_SCOPES = {''test'', ''provided'', ''system'', ''import''}"

definition EXCLUDE_DIRS :: "string list" where
  "EXCLUDE_DIRS = [''node_modules'', ''frontend'', ''client'', ''web'', ''ui'', ''dist'',
     ''build'', ''__mocks__'', ''test'']"

definition is_excluded_path :: "string \<Rightarrow> bool" where
  "is_excluded_path path = list_ex (\<lambda>excl. contains path excl) EXCLUDE_DIRS"

section \<open>The extractor\<close>

subsection \<open>Dependencies\<close>

text \<open>\<open>e.text.strip()\<close> raises \<open>AttributeError\<close> when the text is \<open>None\<close>.\<close>

definition text_strip :: "string option \<Rightarrow> error + string" where
  "text_strip t = (case t of None \<Rightarrow> Inl AttributeError | Some s \<Rightarrow> Inr (py_strip s))"

text \<open>The body of the loop over the dependency nodes of a POM.\<close>

definition pom_dependency :: "dependency \<Rightarrow> string set \<Rightarrow> error + string set" where
  "pom_dependency n deps =
     (case (case scope n of None \<Rightarrow> Inr False
            | Some sc \<Rightarrow> (case text_strip sc of Inl e \<Rightarrow> Inl e
                          | Inr t \<Rightarrow> Inr (t \<in> UNWANTED_SCOPES))) of
        Inl e \<Rightarrow> Inl e
      | Inr True \<Rightarrow> Inr deps
      | Inr False \<Rightarrow>
          (case (groupId n, artifactId n) of
             (Some gid, Some aid) \<Rightarrow>
               (case text_strip gid of Inl e \<Rightarrow> Inl e | Inr g \<Rightarrow>
                (case text_strip aid of Inl e \<Rightarrow> Inl e | Inr a \<Rightarrow>
                 (case (case version n of None \<Rightarrow> Inr ''<inherited>''
                        | Some ver \<Rightarrow> text_strip ver) of
                    Inl e \<Rightarrow> Inl e
                  | Inr v \<Rightarrow> Inr (insert (g @ '':'' @ a @ '':'' @ v) deps))))
           | _ \<Rightarrow> Inr deps))"

fun pom_dependencies :: "dependency list \<Rightarrow> string set \<Rightarrow> error option \<times> string set" where
  "pom_dependencies [] deps = (None, deps)"
| "pom_dependencies (n # ns) deps =
     (case pom_dependency n deps of
        Inl e \<Rightarrow> (Some e, deps)
      | Inr deps' \<Rightarrow> pom_dependencies ns deps')"

text \<open>
  In \<open>count_dependencies\<close> the variable \<open>root\<close> is the directory yielded by
  \<open>os.walk\<close>, until the pom.xml branch assigns \<open>tree.getroot()\<close> to it.
  \<open>os.path.join\<close> raises \<open>TypeError\<close> on an XML element.
\<close>

datatype root_var = RootStr string | RootElement

definition os_path_join :: "root_var \<Rightarrow> string \<Rightarrow> error + string" where
  "os_path_join root file =
     (case root of RootStr r \<Rightarrow> Inr (path_join r file) | RootElement \<Rightarrow> Inl TypeError)"

definition pom_body :: "env \<Rightarrow> string \<Rightarrow> root_var \<times> string set
    \<Rightarrow> error option \<times> root_var \<times> string set" where
  "pom_body env full_path st =
     (case et_parse env full_path of
        Inl e \<Rightarrow> (Some e, st)
      | Inr nodes \<Rightarrow>
          (case pom_dependencies nodes (snd st) of (r, deps) \<Rightarrow> (r, RootElement, deps)))"

definition package_json_body :: "env \<Rightarrow> string \<Rightarrow> string set \<Rightarrow> error option \<times> string set" where
  "package_json_body env full_path deps =
     (case json_dependencies env full_path of
        Inl e \<Rightarrow> (Some e, deps)
      | Inr ks \<Rightarrow> (None, deps \<union> set ks))"

definition requirement_line :: "string \<Rightarrow> string set \<Rightarrow> string set" where
  "requirement_line line deps =
     (if py_strip line \<noteq> [] \<and> \<not> startswith line ''#''
      then insert (split_head ''=='' (py_strip line)) deps else deps)"

definition requirements_body :: "env \<Rightarrow> string \<Rightarrow> string set \<Rightarrow> error option \<times> string set" where
  "requirements_body env full_path deps =
     (case open_lines env full_path of
        OpenError e \<Rightarrow> (Some e, deps)
      | Lines ls r \<Rightarrow> (r, fold requirement_line ls deps))"

definition build_gradle_body :: "env \<Rightarrow> string \<Rightarrow> string set \<Rightarrow> error option \<times> string set" where
  "build_gradle_body env full_path deps =
     (case read_text env full_path of
        Inl e \<Rightarrow> (Some e, deps)
      | Inr content \<Rightarrow> (None, deps \<union> set (gradle_findall env content)))"

definition go_mod_line :: "string \<Rightarrow> string set \<Rightarrow> string set" where
  "go_mod_line line deps =
     (if startswith line ''require''
      then (case py_split line of p0 # p1 # ps \<Rightarrow> insert p1 deps | _ \<Rightarrow> deps)
      else deps)"

definition go_mod_body :: "env \<Rightarrow> string \<Rightarrow> string set \<Rightarrow> error option \<times> string set" where
  "go_mod_body env full_path deps =
     (case open_lines env full_path of
        OpenError e \<Rightarrow> (Some e, deps)
      | Lines ls r \<Rightarrow> (r, fold go_mod_line ls deps))"

text \<open>The body of the loop over the files of one directory.\<close>

definition dependency_file :: "env \<Rightarrow> string \<Rightarrow> root_var \<times> string set
    \<Rightarrow> error + root_var \<times> string set" where
  "dependency_file env file st =
     (if file = [] then Inr st
      else case os_path_join (fst st) file of
        Inl e \<Rightarrow> Inr st
      | Inr full_path \<Rightarrow>
          if file = ''pom.xml'' then except_continue (pom_body env full_path st)
          else if file = ''package.json'' then
            except_continue (map_prod id (Pair (fst st)) (package_json_body env full_path (snd st)))
          else if file = ''requirements.txt'' then
            except_continue (map_prod id (Pair (fst st)) (requirements_body env full_path (snd st)))
          else if file = ''build.gradle'' then
            except_continue (map_prod id (Pair (fst st)) (build_gradle_body env full_path (snd st)))
          else if file = ''go.mod'' then
            except_continue (map_prod id (Pair (fst st)) (go_mod_body env full_path (snd st)))
          else Inr st)"

definition dependency_dir :: "env \<Rightarrow> string \<times> string list \<Rightarrow> string set \<Rightarrow> error + string set" where
  "dependency_dir env d deps =
     (if is_excluded_path (fst d) then Inr deps
      else case for_each (dependency_file env) (snd d) (RootStr (fst d), deps) of
        Inl e \<Rightarrow> Inl e
      | Inr st \<Rightarrow> Inr (snd st))"

definition count_dependencies :: "env \<Rightarrow> string \<Rightarrow> error + string set" where
  "count_dependencies env path = for_each (dependency_dir env) (os_walk_at env path) {}"

subsection \<open>Endpoints and calls\<close>

definition has_extension :: "string list \<Rightarrow> string \<Rightarrow> bool" where
  "has_extension exts file = list_ex (\<lambda>e. endswith file e) exts"

definition add_endpoints :: "env \<Rightarrow> string \<Rightarrow> (string \<times> string) set \<Rightarrow> (string \<times> string) set" where
  "add_endpoints env content unique =
     fold (\<lambda>rule u. fold (\<lambda>m u'. insert (snd rule, normalize_path m) u')
                       (endpoint_findall env (fst rule) content) u)
          API_ENDPOINT_PATTERNS unique"

definition endpoint_body :: "env \<Rightarrow> string \<Rightarrow> string \<Rightarrow> (string \<times> string) set
    \<Rightarrow> error option \<times> (string \<times> string) set" where
  "endpoint_body env root file unique =
     (case read_text_ignore env (path_join root file) of
        Inl e \<Rightarrow> (Some e, unique)
      | Inr content \<Rightarrow> (None, add_endpoints env content unique))"

definition endpoint_file :: "env \<Rightarrow> string \<Rightarrow> string \<Rightarrow> (string \<times> string) set
    \<Rightarrow> error + (string \<times> string) set" where
  "endpoint_file env root file unique =
     (if has_extension [''.py'', ''.js'', ''.ts'', ''.java'', ''.kt'', ''.php'', ''.go''] file
      then except_continue (endpoint_body env root file unique)
      else Inr unique)"

definition endpoint_dir :: "env \<Rightarrow> string \<times> string list \<Rightarrow> (string \<times> string) set
    \<Rightarrow> error + (string \<times> string) set" where
  "endpoint_dir env d unique =
     (if is_excluded_path (fst d) then Inr unique
      else for_each (endpoint_file env (fst d)) (snd d) unique)"

text \<open>\<open>sorted\<close> of a list built from a set, one entry for each element.\<close>

definition sorted_of :: "('a \<Rightarrow> string) \<Rightarrow> 'a set \<Rightarrow> string list" where
  "sorted_of f A = sorted_list_of_multiset (image_mset f (mset_set A))"

definition count_endpoints :: "env \<Rightarrow> string \<Rightarrow> error + nat \<times> string list" where
  "count_endpoints env path =
     (case for_each (endpoint_dir env) (os_walk_at env path) {} of
        Inl e \<Rightarrow> Inl e
      | Inr unique \<Rightarrow> Inr (card unique, sorted_of (\<lambda>e. fst e @ '' '' @ snd e) unique))"

definition add_calls :: "env \<Rightarrow> string \<Rightarrow> string set \<Rightarrow> string set" where
  "add_calls env content matches =
     fold (\<lambda>i ms. fold (\<lambda>m ms'. insert (py_strip m) ms') (call_finditer env i content) ms)
          CALL_PATTERNS matches"

definition call_body :: "env \<Rightarrow> string \<Rightarrow> string \<Rightarrow> string set \<Rightarrow> error option \<times> string set" where
  "call_body env root file matches =
     (case read_text_ignore env (path_join root file) of
        Inl e \<Rightarrow> (Some e, matches)
      | Inr content \<Rightarrow> (None, add_calls env content matches))"

definition call_file :: "env \<Rightarrow> string \<Rightarrow> string \<Rightarrow> string set \<Rightarrow> error + string set" where
  "call_file env root file matches =
     (if has_extension [''.py'', ''.js'', ''.ts'', ''.java'', ''.kt''] file
      then except_continue (call_body env root file matches)
      else Inr matches)"

definition call_dir :: "env \<Rightarrow> string \<times> string list \<Rightarrow> string set \<Rightarrow> error + string set" where
  "call_dir env d matches =
     (if is_excluded_path (fst d) then Inr matches
      else for_each (call_file env (fst d)) (snd d) matches)"

definition count_inter_service_calls :: "env \<Rightarrow> string \<Rightarrow> error + nat \<times> string list" where
  "count_inter_service_calls env path =
     (case for_each (call_dir env) (os_walk_at env path) {} of
        Inl e \<Rightarrow> Inl e
      | Inr matches \<Rightarrow> Inr (card matches, sorted_of id matches))"

section \<open>Example inputs\<close>

text \<open>File and directory names are not empty and hold no slash.\<close>

fun valid_tree :: "tree \<Rightarrow> bool" where
  "valid_tree (Dir fs ds) =
     list_all (\<lambda>d. fst d \<noteq> [] \<and> CHR ''/'' \<notin> set (fst d) \<and> valid_tree (snd d)) ds"

text \<open>
  A module directory with a source file, a requirements file and a subdirectory;
  the first endpoint rule and the second call rule match in every source file.
\<close>

definition example_env :: "string \<Rightarrow> env" where
  "example_env base =
     \<lparr>dir_at = (\<lambda>p. if p = base
         then Some (Dir [''app.py'', ''requirements.txt''] [(''src'', Dir [''a.js''] [])])
         else None),
      read_text_ignore = (\<lambda>p. Inr ''code''),
      read_text = (\<lambda>p. Inr ''text''),
      open_lines = (\<lambda>p. Lines [''flask==1.0''] None),
      et_parse = (\<lambda>p. Inr []),
      json_dependencies = (\<lambda>p. Inr []),
      endpoint_findall = (\<lambda>i c. if i = 0 then [''/users/''] else []),
      call_finditer = (\<lambda>i c. if i = 1 then [''fetch(''] else []),
      gradle_findall = (\<lambda>c. []),
      modules_of = (\<lambda>p. [])\<rparr>"

text \<open>
  A module directory \<open>svc\<close> with the given files, line file and parsed POM; nothing
  else can be read.
\<close>

definition manifest_env :: "string list \<Rightarrow> line_file \<Rightarrow> error + dependency list \<Rightarrow> env" where
  "manifest_env files lf pom =
     \<lparr>dir_at = (\<lambda>p. if p = ''svc'' then Some (Dir files []) else None),
      read_text_ignore = (\<lambda>p. Inl OSError),
      read_text = (\<lambda>p. Inl OSError),
      open_lines = (\<lambda>p. lf),
      et_parse = (\<lambda>p. pom),
      json_dependencies = (\<lambda>p. Inl JSONDecodeError),
      endpoint_findall = (\<lambda>i c. []),
      call_finditer = (\<lambda>i c. []),
      gradle_findall = (\<lambda>c. []),
      modules_of = (\<lambda>p. [])\<rparr>"

text \<open>A POM dependency \<open>org.a:lib\<close> without a version, and one whose group is empty.\<close>

definition example_dependency :: "string option option \<Rightarrow> dependency" where
  "example_dependency sc =
     \<lparr>scope = sc, groupId = Some (Some ''org.a''), artifactId = Some (Some '' lib ''),
      version = None\<rparr>"

definition empty_group_dependency :: dependency where
  "empty_group_dependency =
     \<lparr>scope = None, groupId = Some None, artifactId = Some (Some ''core''), version = None\<rparr>"

text \<open>A POM dependency \<open>junit:junit:4.13\<close>, and \<open>org.a:lib\<close> with an empty version element.\<close>

definition junit_dependency :: "string option option \<Rightarrow> dependency" where
  "junit_dependency sc =
     \<lparr>scope = sc, groupId = Some (Some ''junit''), artifactId = Some (Some ''junit''),
      version = Some (Some ''4.13'')\<rparr>"

definition empty_version_dependency :: "string option option \<Rightarrow> dependency" where
  "empty_version_dependency sc =
     \<lparr>scope = sc, groupId = Some (Some ''org.a''), artifactId = Some (Some ''lib''),
      version = Some None\<rparr>"

text \<open>The environment in which the POM at path \<open>p\<close> parses to the given dependency nodes.\<close>

definition with_pom :: "env \<Rightarrow> string \<Rightarrow> dependency list \<Rightarrow> env" where
  "with_pom env p nodes = env\<lparr>et_parse := (et_parse env)(p := Inr nodes)\<rparr>"

section \<open>The aggregator\<close>

text \<open>The accumulators of \<open>analyze_service\<close>.\<close>

record totals =
  total_eps :: nat
  total_calls :: nat
  all_eps :: "string set"
  all_calls :: "string set"
  all_deps :: "string set"

definition empty_totals :: totals where
  "empty_totals = \<lparr>total_eps = 0, total_calls = 0, all_eps = {}, all_calls = {}, all_deps = {}\<rparr>"

text \<open>
  The accumulation of one module's results: the endpoint count and list, the call count
  and list, the dependency set.
\<close>

definition aggregate :: "(nat \<times> string list) \<times> (nat \<times> string list) \<times> string set
    \<Rightarrow> totals \<Rightarrow> totals" where
  "aggregate r t =
     (case r of ((ep_count, eps), (call_count, calls), deps) \<Rightarrow>
        \<lparr>total_eps = total_eps t + ep_count,
         total_calls = total_calls t + call_count,
         all_eps = all_eps t \<union> set eps,
         all_calls = all_calls t \<union> set calls,
         all_deps = all_deps t \<union> deps\<rparr>)"

definition analyze_module :: "env \<Rightarrow> string \<Rightarrow> totals \<Rightarrow> error + totals" where
  "analyze_module env path t =
     (case count_endpoints env path of Inl e \<Rightarrow> Inl e | Inr ep \<Rightarrow>
      (case count_inter_service_calls env path of Inl e \<Rightarrow> Inl e | Inr ca \<Rightarrow>
       (case count_dependencies env path of Inl e \<Rightarrow> Inl e | Inr deps \<Rightarrow>
          Inr (aggregate (ep, ca, deps) t))))"

text \<open>\<open>sep.join(xs)\<close> and \<open>os.path.basename\<close>.\<close>

fun join :: "string \<Rightarrow> string list \<Rightarrow> string" where
  "join sep [] = []"
| "join sep [x] = x"
| "join sep (x # y # ys) = x @ sep @ join sep (y # ys)"

definition basename :: "string \<Rightarrow> string" where
  "basename p = rev (takeWhile (\<lambda>c. c \<noteq> CHR ''/'') (rev p))"

text \<open>
  The calendar day of a snapshot, as the number of days since 0001-01-01; the code
  carries it as the text \<open>strftime('%Y-%m-%d')\<close> prints.
\<close>

type_synonym date = int

text \<open>The row handed to the CSV writer; the console output is not modelled.\<close>

record csv_row =
  Service :: string
  Date :: date
  Endpoints :: nat
  Dependencies :: nat
  InterServiceCommunications :: nat
  DependencyList :: string
  EndpointList :: string
  InterServiceCommunicationsList :: string

definition quoted_list :: "string set \<Rightarrow> string" where
  "quoted_list A = [CHR 0x22] @ join '';'' (sorted_of id A) @ [CHR 0x22]"

definition summary_row :: "string \<Rightarrow> date \<Rightarrow> totals \<Rightarrow> csv_row" where
  "summary_row repo_path d t =
     \<lparr>Service = basename repo_path, Date = d,
      Endpoints = total_eps t,
      Dependencies = card (all_deps t),
      InterServiceCommunications = card (all_calls t),
      DependencyList = quoted_list (all_deps t),
      EndpointList = quoted_list (all_eps t),
      InterServiceCommunicationsList = quoted_list (all_calls t)\<rparr>"

definition module_paths :: "env \<Rightarrow> string \<Rightarrow> string list" where
  "module_paths env repo_path =
     (let modules = modules_of env (path_join repo_path ''pom.xml'')
      in if modules \<noteq> [] then map (path_join repo_path) modules else [repo_path])"

definition analyze_service :: "env \<Rightarrow> string \<Rightarrow> date \<Rightarrow> error + csv_row" where
  "analyze_service env repo_path d =
     (case for_each (analyze_module env) (module_paths env repo_path) empty_totals of
        Inl e \<Rightarrow> Inl e
      | Inr t \<Rightarrow> Inr (summary_row repo_path d t))"

text \<open>
  A repository with the Maven modules \<open>a\<close> and \<open>b\<close>, each with one source file in which
  the first endpoint rule matches \<open>/x\<close>.
\<close>

definition two_module_env :: env where
  "two_module_env =
     \<lparr>dir_at = (\<lambda>p. if p = ''repo/a'' \<or> p = ''repo/b'' then Some (Dir [''app.py''] []) else None),
      read_text_ignore = (\<lambda>p. Inr ''code''),
      read_text = (\<lambda>p. Inl OSError),
      open_lines = (\<lambda>p. OpenError OSError),
      et_parse = (\<lambda>p. Inl ParseError),
      json_dependencies = (\<lambda>p. Inl JSONDecodeError),
      endpoint_findall = (\<lambda>i c. if i = 0 then [''/x''] else []),
      call_finditer = (\<lambda>i c. []),
      gradle_findall = (\<lambda>c. []),
      modules_of = (\<lambda>p. if p = ''repo/pom.xml'' then [''a'', ''b''] else [])\<rparr>"

section \<open>The history walker\<close>

text \<open>
  A \<open>datetime\<close> is kept as its microseconds since 0001-01-01 00:00:00 and a
  \<open>timedelta\<close> as its microseconds. Python raises \<open>OverflowError\<close> for a
  \<open>timedelta\<close> of more than 999999999 days and for a \<open>datetime\<close> outside the years
  1 to 9999.
\<close>

type_synonym datetime = int

type_synonym timedelta = int

definition day_us :: int where
  "day_us = 86400000000"

definition timedelta_of :: "int \<Rightarrow> error + timedelta" where
  "timedelta_of us =
     (if - 999999999 \<le> us div day_us \<and> us div day_us \<le> 999999999 then Inr us
      else Inl OverflowError)"

definition datetime_of :: "int \<Rightarrow> error + datetime" where
  "datetime_of us = (if 0 \<le> us \<and> us < 3652059 * day_us then Inr us else Inl OverflowError)"

text \<open>\<open>now.weekday()\<close>: 0001-01-01 is a Monday, and Monday is 0.\<close>

definition weekday :: "datetime \<Rightarrow> int" where
  "weekday t = (t div day_us) mod 7"

definition strftime_date :: "datetime \<Rightarrow> date" where
  "strftime_date t = t div day_us"

text \<open>\<open>timedelta(weeks=1 if frequency == "weekly" else 30)\<close>.\<close>

definition period_delta :: "string \<Rightarrow> timedelta" where
  "period_delta frequency = (if frequency = ''weekly'' then 1 else 30) * 7 * day_us"

text \<open>The date the walker starts from: the anchor is \<open>now\<close>, or the Monday of its week.\<close>

definition anchor :: "datetime \<Rightarrow> string \<Rightarrow> error + datetime" where
  "anchor now frequency =
     (if frequency = ''weekly'' then datetime_of (now - weekday now * day_us) else Inr now)"

definition start_date :: "datetime \<Rightarrow> string \<Rightarrow> int \<Rightarrow> error + datetime" where
  "start_date now frequency periods =
     (case anchor now frequency of Inl e \<Rightarrow> Inl e | Inr a \<Rightarrow>
      (case timedelta_of (period_delta frequency * periods) of Inl e \<Rightarrow> Inl e | Inr d \<Rightarrow>
         datetime_of (a - d)))"

text \<open>
  The version-control commands: \<open>git rev-parse --verify branch\<close> and
  \<open>git rev-list -1 --before date branch\<close> through \<open>check_output\<close>, which raises
  \<open>CalledProcessError\<close> on a non-zero exit, and whether \<open>git checkout -q commit\<close>
  exits with zero.
\<close>

record git =
  rev_parse_verify :: "string \<Rightarrow> error + string"
  rev_list_before :: "date \<Rightarrow> string \<Rightarrow> error + string"
  checkout_ok :: "string \<Rightarrow> bool"

text \<open>
  The \<open>for ... else\<close> loop over the candidate branches: \<open>break\<close> on the first that
  verifies, \<open>continue\<close> on \<open>CalledProcessError\<close>, \<open>None\<close> when the list is exhausted.
\<close>

fun find_branch :: "git \<Rightarrow> string list \<Rightarrow> error + string option" where
  "find_branch g [] = Inr None"
| "find_branch g (b # bs) =
     (case rev_parse_verify g b of
        Inr out \<Rightarrow> Inr (Some b)
      | Inl e \<Rightarrow> if e = CalledProcessError then find_branch g bs else Inl e)"

definition snapshot_step :: "git \<Rightarrow> string \<Rightarrow> datetime \<Rightarrow> timedelta \<Rightarrow> int
    \<Rightarrow> (string \<times> date) list \<Rightarrow> error + (string \<times> date) list" where
  "snapshot_step g branch start delta i commits =
     (case timedelta_of (i * delta) of Inl e \<Rightarrow> Inl e | Inr d \<Rightarrow>
      (case datetime_of (start + d) of Inl e \<Rightarrow> Inl e | Inr t \<Rightarrow>
       (case rev_list_before g (strftime_date t) branch of
          Inl e \<Rightarrow> if e = CalledProcessError then Inr commits else Inl e
        | Inr out \<Rightarrow>
            if py_strip out \<noteq> [] then Inr (commits @ [(py_strip out, strftime_date t)])
            else Inr commits)))"

definition resolve_commits :: "git \<Rightarrow> string \<Rightarrow> datetime \<Rightarrow> timedelta \<Rightarrow> int
    \<Rightarrow> error + (string \<times> date) list" where
  "resolve_commits g branch start delta periods =
     for_each (snapshot_step g branch start delta) (map int [0 ..< nat (periods + 1)]) []"

definition get_commits :: "git \<Rightarrow> datetime \<Rightarrow> string \<Rightarrow> int \<Rightarrow> error + (string \<times> date) list" where
  "get_commits g now frequency periods =
     (case start_date now frequency periods of Inl e \<Rightarrow> Inl e | Inr start \<Rightarrow>
      (case find_branch g [''main'', ''master'', ''develop''] of
         Inl e \<Rightarrow> Inl e
       | Inr None \<Rightarrow> Inr []
       | Inr (Some branch) \<Rightarrow> resolve_commits g branch start (period_delta frequency) periods))"

section \<open>The run\<close>

text \<open>
  The working tree's head commit, the rows written so far, and how many times the
  restoring checkout of the last line of the script has been carried out.
\<close>

record world =
  head :: string
  rows :: "csv_row list"
  restores :: nat

text \<open>\<open>subprocess.run([... "checkout", "-q", commit], check=True)\<close>.\<close>

definition git_checkout :: "git \<Rightarrow> string \<Rightarrow> world \<Rightarrow> error + world" where
  "git_checkout g commit w =
     (if checkout_ok g commit then Inr (w\<lparr>head := commit\<rparr>) else Inl CalledProcessError)"

text \<open>
  The loop over the snapshots; the file system the analysis reads is the one of the
  commit checked out. An exception leaves the loop with the world as it stands.
\<close>

fun snapshots :: "(string \<Rightarrow> env) \<Rightarrow> git \<Rightarrow> string \<Rightarrow> (string \<times> date) list \<Rightarrow> world
    \<Rightarrow> error option \<times> world" where
  "snapshots fs g repo_path [] w = (None, w)"
| "snapshots fs g repo_path (s # ss) w =
     (case git_checkout g (fst s) w of
        Inl e \<Rightarrow> (Some e, w)
      | Inr w1 \<Rightarrow>
          (case analyze_service (fs (fst s)) repo_path (snd s) of
             Inl e \<Rightarrow> (Some e, w1)
           | Inr row \<Rightarrow> snapshots fs g repo_path ss (w1\<lparr>rows := rows w1 @ [row]\<rparr>)))"

definition run :: "(string \<Rightarrow> env) \<Rightarrow> git \<Rightarrow> datetime \<Rightarrow> string \<Rightarrow> string \<Rightarrow> int \<Rightarrow> world
    \<Rightarrow> error option \<times> world" where
  "run fs g now repo_path frequency periods w =
     (let original_head = head w in
      case get_commits g now frequency periods of
        Inl e \<Rightarrow> (Some e, w)
      | Inr commits \<Rightarrow>
          (case snapshots fs g repo_path commits w of
             (Some e, w1) \<Rightarrow> (Some e, w1)
           | (None, w1) \<Rightarrow>
               (case git_checkout g original_head w1 of
                  Inl e \<Rightarrow> (Some e, w1)
                | Inr w2 \<Rightarrow> (None, w2\<lparr>restores := restores w2 + 1\<rparr>))))"

text \<open>
  A repository in which the given branches exist, \<open>rev-list\<close> prints what \<open>out\<close> gives
  for a date and a branch, and the checkout of the commits in \<open>bad\<close> fails.
\<close>

definition example_git :: "string list \<Rightarrow> (date \<Rightarrow> string \<Rightarrow> string) \<Rightarrow> string list \<Rightarrow> git" where
  "example_git branches out bad =
     \<lparr>rev_parse_verify = (\<lambda>b. if b \<in> set branches then Inr ''4f2a'' else Inl CalledProcessError),
      rev_list_before = (\<lambda>d b. Inr (out d b)),
      checkout_ok = (\<lambda>c. c \<notin> set bad)\<rparr>"

text \<open>2026-11-04 12:00:00, a Wednesday: day 739923, in the week of Monday 739921.\<close>

definition example_now :: datetime where
  "example_now = 739923 * day_us + 43200000000"

text \<open>
  Git can be started: the only exception \<open>check_output\<close> raises is
  \<open>CalledProcessError\<close>.
\<close>

definition git_runs :: "git \<Rightarrow> bool" where
  "git_runs g \<longleftrightarrow>
     (\<forall>b e. rev_parse_verify g b = Inl e \<longrightarrow> e = CalledProcessError)
     \<and> (\<forall>d b e. rev_list_before g d b = Inl e \<longrightarrow> e = CalledProcessError)"

section \<open>Endpoint normalisation\<close>

lemma strip_chars_Nil [simp]: "strip_chars cs [] = []"
  by (simp add: strip_chars_def)

lemma rstrip_keeps_hd:
  assumes "xs \<noteq> []" "\<not> P (hd xs)"
  shows "\<exists>zs. rev (dropWhile P (rev xs)) = hd xs # zs"
proof -
  from assms obtain x xs' where xs: "xs = x # xs'" and nP: "\<not> P x" by (cases xs) auto
  have "\<exists>zs. dropWhile P (rev xs' @ [x]) = zs @ [x]"
    using nP by (simp add: dropWhile_append)
  then obtain zs where "dropWhile P (rev xs) = zs @ [x]" using xs by auto
  then have "rev (dropWhile P (rev xs)) = x # rev zs" by simp
  with xs show ?thesis by simp
qed

lemma strip_chars_hd: "strip_chars cs s \<noteq> [] \<Longrightarrow> hd (strip_chars cs s) \<notin> cs"
proof -
  assume ne: "strip_chars cs s \<noteq> []"
  let ?d = "dropWhile (\<lambda>c. c \<in> cs) s"
  have d_ne: "?d \<noteq> []"
  proof
    assume "?d = []"
    then have "strip_chars cs s = []"
      unfolding strip_chars_def by (simp only: rev.simps dropWhile.simps)
    with ne show False by simp
  qed
  then have hd_d: "hd ?d \<notin> cs" using hd_dropWhile [of "\<lambda>c. c \<in> cs" s] by simp
  from rstrip_keeps_hd [of ?d "\<lambda>c. c \<in> cs", OF d_ne hd_d]
  obtain zs where "strip_chars cs s = hd ?d # zs" unfolding strip_chars_def by blast
  with hd_d show ?thesis by simp
qed

lemma strip_chars_last: "strip_chars cs s \<noteq> [] \<Longrightarrow> last (strip_chars cs s) \<notin> cs"
proof -
  assume ne: "strip_chars cs s \<noteq> []"
  let ?r = "dropWhile (\<lambda>c. c \<in> cs) (rev (dropWhile (\<lambda>c. c \<in> cs) s))"
  from ne have r_ne: "?r \<noteq> []" by (simp add: strip_chars_def)
  then have "hd ?r \<notin> cs"
    using hd_dropWhile [of "\<lambda>c. c \<in> cs" "rev (dropWhile (\<lambda>c. c \<in> cs) s)"] by simp
  with r_ne show ?thesis by (simp add: strip_chars_def last_rev)
qed

lemma strip_chars_fixed:
  assumes "t = [] \<or> (hd t \<notin> cs \<and> last t \<notin> cs)"
  shows "strip_chars cs t = t"
proof (cases "t = []")
  case True
  then show ?thesis by simp
next
  case False
  with assms have h: "hd t \<notin> cs" and l: "last t \<notin> cs" by auto
  from False h have "dropWhile (\<lambda>c. c \<in> cs) t = t" by (cases t) auto
  moreover from False l have "dropWhile (\<lambda>c. c \<in> cs) (rev t) = rev t"
    by (cases "rev t") (auto simp: last_rev [symmetric] hd_rev)
  ultimately show ?thesis by (simp add: strip_chars_def)
qed

lemma strip_chars_idem: "strip_chars cs (strip_chars cs s) = strip_chars cs s"
  by (rule strip_chars_fixed) (use strip_chars_hd strip_chars_last in blast)

lemma strip_chars_lead:
  "c \<in> cs \<Longrightarrow> strip_chars cs (c # s) = strip_chars cs s"
  by (simp add: strip_chars_def)

text \<open>
  C6. Endpoint path normalisation is idempotent, and \<open>/users/\<close>, \<open>users\<close> and
  \<open>/users\<close> all normalise to \<open>/users\<close>; an already normalised path is left as it is.
\<close>

theorem normalize_path_idempotent:
  "normalize_path (normalize_path s) = normalize_path s
   \<and> normalize_path ''/users/'' = ''/users''
   \<and> normalize_path ''users'' = ''/users''
   \<and> normalize_path ''/users'' = ''/users''"
proof -
  have "strip_chars {CHR ''/''} (CHR ''/'' # strip_chars {CHR ''/''} s) = strip_chars {CHR ''/''} s"
    by (simp add: strip_chars_lead strip_chars_idem)
  then have "normalize_path (normalize_path s) = normalize_path s"
    by (simp add: normalize_path_def)
  moreover have "normalize_path ''/users/'' = ''/users''"
    by (simp add: normalize_path_def strip_chars_def)
  moreover have "normalize_path ''users'' = ''/users''"
    by (simp add: normalize_path_def strip_chars_def)
  moreover have "normalize_path ''/users'' = ''/users''"
    by (simp add: normalize_path_def strip_chars_def)
  ultimately show ?thesis by simp
qed

section \<open>Excluded paths\<close>

lemma startswith_iff: "startswith s p \<longleftrightarrow> (\<exists>r. s = p @ r)"
  by (induction s p rule: startswith.induct) auto

lemma contains_iff: "contains s sub \<longleftrightarrow> (\<exists>a b. s = a @ sub @ b)"
proof (induction s)
  case Nil
  then show ?case by auto
next
  case (Cons c cs)
  show ?case
  proof
    assume "contains (c # cs) sub"
    then consider "startswith (c # cs) sub" | "contains cs sub" by auto
    then show "\<exists>a b. c # cs = a @ sub @ b"
    proof cases
      case 1
      then obtain r where "c # cs = sub @ r" by (auto simp: startswith_iff)
      then have "c # cs = [] @ sub @ r" by simp
      then show ?thesis by blast
    next
      case 2
      with Cons obtain a b where "cs = a @ sub @ b" by auto
      then have "c # cs = (c # a) @ sub @ b" by simp
      then show ?thesis by blast
    qed
  next
    assume "\<exists>a b. c # cs = a @ sub @ b"
    then obtain a b where ab: "c # cs = a @ sub @ b" by blast
    show "contains (c # cs) sub"
    proof (cases a)
      case Nil
      with ab have "startswith (c # cs) sub" by (auto simp: startswith_iff)
      then show ?thesis by simp
    next
      case (Cons x a')
      with ab have "cs = a' @ sub @ b" by simp
      with Cons.IH have "contains cs sub" by blast
      then show ?thesis by simp
    qed
  qed
qed

lemma is_excluded_path_append: "is_excluded_path p \<Longrightarrow> is_excluded_path (p @ s)"
proof -
  assume "is_excluded_path p"
  then obtain t where t: "t \<in> set EXCLUDE_DIRS" and "contains p t"
    by (auto simp: is_excluded_path_def list_ex_iff)
  then obtain a b where "p = a @ t @ b" by (auto simp: contains_iff)
  then have "p @ s = a @ t @ (b @ s)" by simp
  then have "contains (p @ s) t" unfolding contains_iff by blast
  with t show ?thesis by (auto simp: is_excluded_path_def list_ex_iff)
qed

lemma path_join_extends: "b \<noteq> [] \<Longrightarrow> CHR ''/'' \<notin> set b \<Longrightarrow> \<exists>s. path_join a b = a @ s"
  by (cases b) (auto simp: path_join_def)

lemma os_walk_roots:
  "valid_tree t \<Longrightarrow> d \<in> set (os_walk p t) \<Longrightarrow> \<exists>s. fst d = p @ s"
proof (induction p t arbitrary: d rule: os_walk.induct)
  case (1 path fs ds)
  from "1.prems"(2) consider "d = (path, fs)"
    | x where "x \<in> set ds" "d \<in> set (os_walk (path_join path (fst x)) (snd x))"
    by auto
  then show ?case
  proof cases
    case 1
    then show ?thesis by simp
  next
    case 2
    from "1.prems"(1) 2(1) have v: "fst x \<noteq> []" "CHR ''/'' \<notin> set (fst x)" "valid_tree (snd x)"
      by (auto simp: list_all_iff)
    from "1.IH" [OF 2(1) v(3) 2(2)] obtain s where s: "fst d = path_join path (fst x) @ s" by blast
    from path_join_extends [OF v(1) v(2)] obtain s' where "path_join path (fst x) = path @ s'" by blast
    with s have "fst d = path @ (s' @ s)" by simp
    then show ?thesis by blast
  qed
qed

lemma for_each_skip:
  "(\<And>x. x \<in> set xs \<Longrightarrow> body x = Inr) \<Longrightarrow> for_each body xs s = Inr s"
  by (induction xs arbitrary: s) auto

lemma sorted_of_empty: "sorted_of f {} = []"
  by (simp add: sorted_of_def)

lemma walked_excluded:
  assumes "is_excluded_path path" "pred_option valid_tree (dir_at env path)"
  shows "\<forall>d \<in> set (os_walk_at env path). is_excluded_path (fst d)"
proof (cases "dir_at env path")
  case None
  then show ?thesis by (simp add: os_walk_at_def)
next
  case (Some t)
  with assms(2) have "valid_tree t" by simp
  then show ?thesis
    using os_walk_roots is_excluded_path_append [OF assms(1)] Some
    by (fastforce simp: os_walk_at_def)
qed

text \<open>
  C10. When the module path itself contains an excluded-directory token as a substring,
  every directory of the walk is excluded, and the endpoint scan, the call scan and the
  dependency scan all return empty results, whatever the tree holds.
\<close>

theorem excluded_module_path_is_empty:
  assumes "tok \<in> set EXCLUDE_DIRS" and "path = a @ tok @ b"
    and "pred_option valid_tree (dir_at env path)"
  shows "list_all (\<lambda>d. is_excluded_path (fst d)) (os_walk_at env path)
    \<and> count_endpoints env path = Inr (0, [])
    \<and> count_inter_service_calls env path = Inr (0, [])
    \<and> count_dependencies env path = Inr {}"
proof -
  from assms(2) have "contains path tok" unfolding contains_iff by blast
  with assms(1) have ex: "is_excluded_path path"
    by (auto simp: is_excluded_path_def list_ex_iff)
  from walked_excluded [OF ex assms(3)]
  have all: "\<forall>d \<in> set (os_walk_at env path). is_excluded_path (fst d)" .
  have e: "for_each (endpoint_dir env) (os_walk_at env path) {} = Inr {}"
    by (rule for_each_skip) (use all in \<open>auto simp: endpoint_dir_def fun_eq_iff\<close>)
  have c: "for_each (call_dir env) (os_walk_at env path) {} = Inr {}"
    by (rule for_each_skip) (use all in \<open>auto simp: call_dir_def fun_eq_iff\<close>)
  have d: "for_each (dependency_dir env) (os_walk_at env path) {} = Inr {}"
    by (rule for_each_skip) (use all in \<open>auto simp: dependency_dir_def fun_eq_iff\<close>)
  from all e c d show ?thesis
    by (simp add: count_endpoints_def count_inter_service_calls_def count_dependencies_def
        sorted_of_empty list_all_iff)
qed

theorem excluded_module_path_is_empty_witness:
  "''web'' \<in> set EXCLUDE_DIRS \<and> ''repo/web'' = ''repo/'' @ ''web'' @ []
   \<and> pred_option valid_tree (dir_at (example_env ''repo/web'') ''repo/web'')
   \<and> count_endpoints (example_env ''repo/web'') ''repo/web'' = Inr (0, [])
   \<and> count_inter_service_calls (example_env ''repo/web'') ''repo/web'' = Inr (0, [])
   \<and> count_dependencies (example_env ''repo/web'') ''repo/web'' = Inr {}"
  using excluded_module_path_is_empty [of "''web''" "''repo/web''" "''repo/''" "[]" "example_env ''repo/web''"]
  by (simp add: EXCLUDE_DIRS_def example_env_def)

text \<open>The same tree under a path with no excluded token is not empty.\<close>

lemma example_dependencies: "count_dependencies (example_env ''repo/svc'') ''repo/svc'' = Inr {''flask''}"
  by (simp add: example_env_def os_walk_at_def path_join_def endswith_def count_dependencies_def
     dependency_dir_def is_excluded_path_def EXCLUDE_DIRS_def dependency_file_def os_path_join_def
     except_continue_def requirements_body_def requirement_line_def py_strip_def strip_chars_def whitespace_def)

lemma example_endpoints: "count_endpoints (example_env ''repo/svc'') ''repo/svc'' = Inr (1, [''GET /users''])"
  by (simp add: example_env_def os_walk_at_def path_join_def endswith_def count_endpoints_def
     endpoint_dir_def is_excluded_path_def EXCLUDE_DIRS_def endpoint_file_def endpoint_body_def
     except_continue_def has_extension_def add_endpoints_def API_ENDPOINT_PATTERNS_def
     normalize_path_def sorted_of_def strip_chars_def enumerate_eq_zip upt_rec)

lemma example_calls: "count_inter_service_calls (example_env ''repo/svc'') ''repo/svc'' = Inr (1, [''fetch(''])"
  by (simp add: example_env_def os_walk_at_def path_join_def endswith_def count_inter_service_calls_def
     call_dir_def is_excluded_path_def EXCLUDE_DIRS_def call_file_def call_body_def
     except_continue_def has_extension_def add_calls_def CALL_PATTERNS_def
     py_strip_def sorted_of_def strip_chars_def whitespace_def upt_rec)

section \<open>Dependency manifests\<close>

lemmas eval_defs = manifest_env_def os_walk_at_def path_join_def endswith_def count_dependencies_def
     dependency_dir_def is_excluded_path_def EXCLUDE_DIRS_def dependency_file_def os_path_join_def
     except_continue_def requirements_body_def requirement_line_def py_strip_def strip_chars_def whitespace_def
     pom_body_def pom_dependency_def text_strip_def UNWANTED_SCOPES_def example_dependency_def

lemmas str_defs = py_strip_def strip_chars_def whitespace_def

lemma split_head_prefix:
  "\<exists>r. s = split_head sep s @ r \<and> (r = [] \<or> startswith r sep)"
  by (induction s) auto

lemma split_head_first:
  "k < length (split_head sep s) \<Longrightarrow> \<not> startswith (drop k s) sep"
proof (induction s arbitrary: k)
  case Nil
  then show ?case by simp
next
  case (Cons c cs)
  show ?case
  proof (cases "startswith (c # cs) sep")
    case True
    with Cons.prems show ?thesis by simp
  next
    case False
    show ?thesis
    proof (cases k)
      case 0
      with False show ?thesis by simp
    next
      case (Suc j)
      with Cons.prems False have "j < length (split_head sep cs)" by simp
      from Cons.IH [OF this] Suc show ?thesis by simp
    qed
  qed
qed

lemma fold_requirement_line:
  "fold requirement_line ls deps =
     deps \<union> {split_head ''=='' (py_strip l) | l. l \<in> set ls \<and> py_strip l \<noteq> [] \<and> \<not> startswith l ''#''}"
proof (induction ls arbitrary: deps)
  case Nil
  then show ?case by simp
next
  case (Cons l ls)
  show ?case
    unfolding fold_Cons comp_apply Cons.IH
    by (auto simp: requirement_line_def)
qed

text \<open>
  C9. In requirements.txt every comment line, a line marked with \<open>#\<close>, adds no
  coordinate. The code breaks this for a comment that is indented: the blank test and
  the coordinate use the trimmed line, but the test for \<open>#\<close> reads the line before
  it is trimmed, so the comment itself is taken as a coordinate.
\<close>

theorem requirements_indented_comment:
  "requirement_line ''  # pinned for CI'' {} = {''# pinned for CI''}
   \<and> count_dependencies (manifest_env [''requirements.txt'']
          (Lines [''flask==1.0'' @ [CHR 0x0A], ''  # pinned for CI'' @ [CHR 0x0A]] None) (Inl ParseError)) ''svc''
       = Inr {''flask'', ''# pinned for CI''}"
  by (simp add: eval_defs insert_commute)

text \<open>
  C3. Every manifest file that parses adds its coordinates to the result. The code breaks
  this: after a pom.xml has parsed, \<open>root\<close> holds the XML root element, joining it
  with the next file name raises, and every later file of that directory is skipped.
  With the two files in the other order both contribute.
\<close>

theorem manifest_after_pom_dropped:
  "count_dependencies (manifest_env [''pom.xml'', ''requirements.txt'']
       (Lines [''flask==1.0''] None) (Inr [example_dependency None])) ''svc''
     = Inr {''org.a:lib:<inherited>''}
   \<and> count_dependencies (manifest_env [''requirements.txt'', ''pom.xml'']
       (Lines [''flask==1.0''] None) (Inr [example_dependency None])) ''svc''
     = Inr {''org.a:lib:<inherited>'', ''flask''}"
  by (simp add: eval_defs)

section \<open>Errors inside the extraction\<close>

text \<open>
  C5 as stated fails: a POM whose second dependency has an empty group element raises
  while it is processed, the exception is caught, and the first coordinate stays.
\<close>

theorem failing_manifest_contributes:
  "pom_body (manifest_env [''pom.xml''] (OpenError OSError)
       (Inr [example_dependency None, empty_group_dependency])) ''svc/pom.xml'' (RootStr ''svc'', {})
     = (Some AttributeError, RootElement, {''org.a:lib:<inherited>''})
   \<and> count_dependencies (manifest_env [''pom.xml''] (OpenError OSError)
       (Inr [example_dependency None, empty_group_dependency])) ''svc''
     = Inr {''org.a:lib:<inherited>''}"
  by (simp add: eval_defs empty_group_dependency_def)

lemma for_each_total:
  "(\<And>x s. \<exists>s'. body x s = Inr s') \<Longrightarrow> \<exists>s'. for_each body xs s = Inr s'"
proof (induction xs arbitrary: s)
  case Nil
  then show ?case by simp
next
  case (Cons x xs)
  from Cons.prems obtain s1 where "body x s = Inr s1" by blast
  moreover from Cons.IH [OF Cons.prems] obtain s2 where "for_each body xs s1 = Inr s2" by blast
  ultimately show ?case by simp
qed

lemma dependency_file_total: "\<exists>st'. dependency_file env file st = Inr st'"
  by (simp add: dependency_file_def except_continue_def split: sum.split)

lemma endpoint_file_total: "\<exists>u'. endpoint_file env root file u = Inr u'"
  by (simp add: endpoint_file_def except_continue_def)

lemma call_file_total: "\<exists>m'. call_file env root file m = Inr m'"
  by (simp add: call_file_def except_continue_def)

lemma dependency_dir_total: "\<exists>deps'. dependency_dir env d deps = Inr deps'"
proof -
  obtain st where "for_each (dependency_file env) (snd d) (RootStr (fst d), deps) = Inr st"
    using for_each_total [of "dependency_file env"] dependency_file_total by blast
  then show ?thesis by (simp add: dependency_dir_def)
qed

lemma endpoint_dir_total: "\<exists>u'. endpoint_dir env d u = Inr u'"
  using for_each_total [of "endpoint_file env (fst d)"] endpoint_file_total
  by (simp add: endpoint_dir_def)

lemma call_dir_total: "\<exists>m'. call_dir env d m = Inr m'"
  using for_each_total [of "call_file env (fst d)"] call_file_total
  by (simp add: call_dir_def)

lemma count_dependencies_total: "\<exists>r. count_dependencies env path = Inr r"
  unfolding count_dependencies_def
  by (rule for_each_total) (rule dependency_dir_total)

lemma count_endpoints_total: "\<exists>r. count_endpoints env path = Inr r"
proof -
  obtain u where "for_each (endpoint_dir env) (os_walk_at env path) {} = Inr u"
    using for_each_total [of "endpoint_dir env"] endpoint_dir_total by blast
  then show ?thesis by (simp add: count_endpoints_def)
qed

lemma count_inter_service_calls_total: "\<exists>r. count_inter_service_calls env path = Inr r"
proof -
  obtain m where "for_each (call_dir env) (os_walk_at env path) {} = Inr m"
    using for_each_total [of "call_dir env"] call_dir_total by blast
  then show ?thesis by (simp add: count_inter_service_calls_def)
qed

lemma pom_dependency_mono: "pom_dependency n deps = Inr deps' \<Longrightarrow> deps \<subseteq> deps'"
  by (auto simp: pom_dependency_def split: sum.splits option.splits bool.splits prod.splits)

lemma pom_dependencies_mono: "deps \<subseteq> snd (pom_dependencies ns deps)"
proof (induction ns arbitrary: deps)
  case Nil
  then show ?case by simp
next
  case (Cons n ns)
  show ?case
  proof (cases "pom_dependency n deps")
    case (Inl e)
    then show ?thesis by simp
  next
    case (Inr deps')
    with Cons.IH [of deps'] pom_dependency_mono [OF Inr] show ?thesis by auto
  qed
qed

lemma fold_requirement_line_mono: "deps \<subseteq> fold requirement_line ls deps"
  by (simp add: fold_requirement_line)

lemma fold_go_mod_line_mono: "deps \<subseteq> fold go_mod_line ls deps"
proof (induction ls arbitrary: deps)
  case Nil
  then show ?case by simp
next
  case (Cons l ls)
  have "deps \<subseteq> go_mod_line l deps"
    by (auto simp: go_mod_line_def split: list.splits)
  with Cons.IH [of "go_mod_line l deps"] show ?case by auto
qed

lemma pom_body_mono: "snd st \<subseteq> snd (snd (pom_body env p st))"
  using pom_dependencies_mono [of "snd st"]
  by (auto simp: pom_body_def split: sum.splits prod.splits) (metis snd_conv subsetD)

lemma package_json_body_mono: "deps \<subseteq> snd (package_json_body env p deps)"
  by (auto simp: package_json_body_def split: sum.splits)

lemma requirements_body_mono: "deps \<subseteq> snd (requirements_body env p deps)"
  using fold_requirement_line_mono
  by (auto simp: requirements_body_def split: line_file.splits)

lemma build_gradle_body_mono: "deps \<subseteq> snd (build_gradle_body env p deps)"
  by (auto simp: build_gradle_body_def split: sum.splits)

lemma go_mod_body_mono: "deps \<subseteq> snd (go_mod_body env p deps)"
  using fold_go_mod_line_mono
  by (auto simp: go_mod_body_def split: line_file.splits)

lemma dependency_file_mono:
  assumes "dependency_file env file st = Inr st'"
  shows "snd st \<subseteq> snd st'"
proof -
  note bodies = pom_body_mono [of st env] package_json_body_mono [of "snd st" env]
    requirements_body_mono [of "snd st" env] build_gradle_body_mono [of "snd st" env]
    go_mod_body_mono [of "snd st" env]
  from assms show ?thesis
    by (auto simp: dependency_file_def except_continue_def split: sum.splits if_splits
        dest: subsetD [OF bodies(1)] subsetD [OF bodies(2)] subsetD [OF bodies(3)]
          subsetD [OF bodies(4)] subsetD [OF bodies(5)])
qed

lemma pom_dependencies_append:
  "pom_dependencies pre deps = (None, deps1)
    \<Longrightarrow> pom_dependencies (pre @ rest) deps = pom_dependencies rest deps1"
  by (induction pre arbitrary: deps) (auto split: sum.splits)

lemma pom_dependencies_raised:
  "pom_dependencies pre deps = (Some e, deps1)
    \<Longrightarrow> pom_dependencies (pre @ rest) deps = (Some e, deps1)"
  by (induction pre arbitrary: deps) (auto split: sum.splits)

lemma pom_dependencies_skip:
  assumes "\<And>d. pom_dependency n d = Inr d"
  shows "pom_dependencies (pre @ n # post) deps = pom_dependencies (pre @ post) deps"
proof (cases "pom_dependencies pre deps")
  case (Pair r deps1)
  show ?thesis
  proof (cases r)
    case None
    with Pair show ?thesis by (simp add: pom_dependencies_append assms)
  next
    case (Some e)
    with Pair show ?thesis by (simp add: pom_dependencies_raised)
  qed
qed

lemma unwanted_scope_skipped:
  "scope n = Some (Some s) \<Longrightarrow> py_strip s \<in> UNWANTED_SCOPES \<Longrightarrow> pom_dependency n d = Inr d"
  by (simp add: pom_dependency_def text_strip_def)

lemma pom_dependency_raises_any:
  "pom_dependency n d = Inl e \<Longrightarrow> pom_dependency n d' = Inl e"
  by (auto simp: pom_dependency_def split: sum.splits option.splits bool.splits prod.splits)

lemma pom_dependencies_no_raise:
  "fst (pom_dependencies ns d) = None \<Longrightarrow> fst (pom_dependencies ns d') = None"
proof (induction ns arbitrary: d d')
  case Nil
  then show ?case by simp
next
  case (Cons n ns)
  show ?case
  proof (cases "pom_dependency n d'")
    case (Inl e)
    from pom_dependency_raises_any [OF Inl, of d] Cons.prems show ?thesis by simp
  next
    case (Inr d1')
    show ?thesis
    proof (cases "pom_dependency n d")
      case (Inl e)
      with Cons.prems show ?thesis by simp
    next
      case r: (Inr d1)
      with Cons.prems have "fst (pom_dependencies ns d1) = None" by simp
      from Cons.IH [OF this, of d1'] Inr show ?thesis by simp
    qed
  qed
qed

lemma with_pom_same_walk: "os_walk_at (with_pom env p nodes) path = os_walk_at env path"
  by (simp add: os_walk_at_def with_pom_def)

lemma with_pom_dependency_file:
  assumes "\<And>d. pom_dependencies ns d = pom_dependencies ns' d"
  shows "dependency_file (with_pom env p ns) file st = dependency_file (with_pom env p ns') file st"
  using assms
  by (simp add: dependency_file_def with_pom_def pom_body_def package_json_body_def
      requirements_body_def build_gradle_body_def go_mod_body_def split: sum.splits)

lemma with_pom_count_dependencies:
  assumes "\<And>d. pom_dependencies ns d = pom_dependencies ns' d"
  shows "count_dependencies (with_pom env p ns) path = count_dependencies (with_pom env p ns') path"
proof -
  have "dependency_file (with_pom env p ns) = dependency_file (with_pom env p ns')"
    using with_pom_dependency_file [OF assms] by (intro ext)
  then have "dependency_dir (with_pom env p ns) = dependency_dir (with_pom env p ns')"
    by (intro ext) (simp add: dependency_dir_def)
  then show ?thesis by (simp add: count_dependencies_def with_pom_same_walk)
qed

lemma for_each_append:
  "for_each body (xs @ ys) s =
     (case for_each body xs s of Inl e \<Rightarrow> Inl e | Inr s' \<Rightarrow> for_each body ys s')"
  by (induction xs arbitrary: s) (auto split: sum.splits)

lemma dependency_files_mono:
  "for_each (dependency_file env) files st = Inr st' \<Longrightarrow> snd st \<subseteq> snd st'"
proof (induction files arbitrary: st)
  case Nil
  then show ?case by simp
next
  case (Cons f fs)
  from Cons.prems obtain st1 where a: "dependency_file env f st = Inr st1"
    and b: "for_each (dependency_file env) fs st1 = Inr st'"
    by (auto split: sum.splits)
  from dependency_file_mono [OF a] Cons.IH [OF b] show ?case by blast
qed

lemma dependency_file_root:
  "file \<noteq> ''pom.xml'' \<Longrightarrow> dependency_file env file st = Inr st' \<Longrightarrow> fst st' = fst st"
  by (auto simp: dependency_file_def except_continue_def split: sum.splits if_splits)

lemma dependency_files_root:
  "''pom.xml'' \<notin> set files \<Longrightarrow> for_each (dependency_file env) files st = Inr st'
    \<Longrightarrow> fst st' = fst st"
proof (induction files arbitrary: st)
  case Nil
  then show ?case by simp
next
  case (Cons f fs)
  from Cons.prems(2) obtain st1 where a: "dependency_file env f st = Inr st1"
    and b: "for_each (dependency_file env) fs st1 = Inr st'"
    by (auto split: sum.splits)
  from Cons.prems(1) have "f \<noteq> ''pom.xml''" "''pom.xml'' \<notin> set fs" by auto
  with dependency_file_root [OF _ a] Cons.IH [OF _ b] show ?case by simp
qed

lemma dependency_dir_mono: "dependency_dir env d deps = Inr deps' \<Longrightarrow> deps \<subseteq> deps'"
  using dependency_files_mono [of env "snd d" "(RootStr (fst d), deps)"]
  by (auto simp: dependency_dir_def split: if_splits sum.splits)

lemma dependency_dirs_mono:
  "for_each (dependency_dir env) ds deps = Inr deps' \<Longrightarrow> deps \<subseteq> deps'"
proof (induction ds arbitrary: deps)
  case Nil
  then show ?case by simp
next
  case (Cons d ds)
  from Cons.prems obtain d1 where a: "dependency_dir env d deps = Inr d1"
    and b: "for_each (dependency_dir env) ds d1 = Inr deps'"
    by (auto split: sum.splits)
  from dependency_dir_mono [OF a] Cons.IH [OF b] show ?case by blast
qed

lemma pom_file_result:
  assumes "et_parse env (path_join root ''pom.xml'') = Inr nodes"
  shows "dependency_file env ''pom.xml'' (RootStr root, deps)
    = Inr (RootElement, snd (pom_dependencies nodes deps))"
  using assms
  by (simp add: dependency_file_def os_path_join_def pom_body_def except_continue_def
      split: prod.splits)

lemma pom_in_dir:
  assumes ne: "\<not> is_excluded_path root" and first: "''pom.xml'' \<notin> set fpre"
    and parse: "et_parse env (path_join root ''pom.xml'') = Inr nodes"
    and c: "\<And>d. c \<in> snd (pom_dependencies nodes d)"
    and res: "dependency_dir env (root, fpre @ ''pom.xml'' # fpost) deps = Inr deps'"
  shows "c \<in> deps'"
proof -
  from res ne obtain st' where
    all: "for_each (dependency_file env) (fpre @ ''pom.xml'' # fpost) (RootStr root, deps) = Inr st'"
    and d': "deps' = snd st'"
    by (auto simp: dependency_dir_def split: sum.splits)
  from all obtain st1 where
    pre: "for_each (dependency_file env) fpre (RootStr root, deps) = Inr st1"
    and rest: "for_each (dependency_file env) (''pom.xml'' # fpost) st1 = Inr st'"
    by (auto simp: for_each_append split: sum.splits)
  from dependency_files_root [OF first pre] have "fst st1 = RootStr root" by simp
  then have st1: "st1 = (RootStr root, snd st1)" by (cases st1) simp
  from rest obtain st2 where
    pom: "dependency_file env ''pom.xml'' st1 = Inr st2"
    and post: "for_each (dependency_file env) fpost st2 = Inr st'"
    by (auto split: sum.splits)
  from pom st1 pom_file_result [OF parse, of "snd st1"]
  have "st2 = (RootElement, snd (pom_dependencies nodes (snd st1)))" by simp
  with c have "c \<in> snd st2" by simp
  with dependency_files_mono [OF post] d' show ?thesis by blast
qed

lemma pom_in_walk:
  assumes walk: "(root, fpre @ ''pom.xml'' # fpost) \<in> set (os_walk_at env path)"
    and ne: "\<not> is_excluded_path root" and first: "''pom.xml'' \<notin> set fpre"
    and parse: "et_parse env (path_join root ''pom.xml'') = Inr nodes"
    and c: "\<And>d. c \<in> snd (pom_dependencies nodes d)"
  shows "\<exists>D. count_dependencies env path = Inr D \<and> c \<in> D"
proof -
  from walk obtain dpre dpost
    where w: "os_walk_at env path = dpre @ (root, fpre @ ''pom.xml'' # fpost) # dpost"
    by (auto simp: in_set_conv_decomp)
  obtain D where D: "count_dependencies env path = Inr D"
    using count_dependencies_total by blast
  then obtain D0 D1 where
    "for_each (dependency_dir env) dpre {} = Inr D0"
    and dir: "dependency_dir env (root, fpre @ ''pom.xml'' # fpost) D0 = Inr D1"
    and post: "for_each (dependency_dir env) dpost D1 = Inr D"
    by (auto simp: count_dependencies_def w for_each_append split: sum.splits)
  from pom_in_dir [OF ne first parse c dir] have "c \<in> D1" .
  with dependency_dirs_mono [OF post] D show ?thesis by blast
qed

lemma coordinate_included:
  assumes "fst (pom_dependencies pre {}) = None"
    and "\<And>d. pom_dependency n d = Inr (insert c d)"
  shows "c \<in> snd (pom_dependencies (pre @ n # post) d)"
proof -
  from pom_dependencies_no_raise [OF assms(1), of d]
  obtain d1 where "pom_dependencies pre d = (None, d1)"
    by (cases "pom_dependencies pre d") auto
  then have "pom_dependencies (pre @ n # post) d = pom_dependencies post (insert c d1)"
    by (simp add: pom_dependencies_append assms(2))
  with pom_dependencies_mono [of "insert c d1" post] show ?thesis by auto
qed

lemma pom_file_raised:
  assumes "et_parse env (path_join root ''pom.xml'') = Inr (pre @ n # post)"
    and "pom_dependencies pre deps = (None, deps1)" and "pom_dependency n deps1 = Inl e"
  shows "dependency_file env ''pom.xml'' (RootStr root, deps) = Inr (RootElement, deps1)"
  using assms by (simp add: pom_file_result pom_dependencies_append)

lemma requirements_file_result:
  assumes "open_lines env (path_join root ''requirements.txt'') = Lines ls r"
  shows "dependency_file env ''requirements.txt'' (RootStr root, deps)
      = Inr (RootStr root, fold requirement_line ls deps)"
  using assms
  by (simp add: dependency_file_def os_path_join_def except_continue_def requirements_body_def)

lemma go_mod_file_result:
  assumes "open_lines env (path_join root ''go.mod'') = Lines ls r"
  shows "dependency_file env ''go.mod'' (RootStr root, deps)
      = Inr (RootStr root, fold go_mod_line ls deps)"
  using assms
  by (simp add: dependency_file_def os_path_join_def except_continue_def go_mod_body_def)

lemmas pom_eval_defs = eval_defs with_pom_def junit_dependency_def empty_version_dependency_def
  empty_group_dependency_def

text \<open>
  C5, as amended. The endpoint scan, the call scan and the dependency scan return for
  every tree and never raise; a source file that cannot be read adds nothing; a manifest
  that cannot be opened, read or parsed adds nothing; a POM in which a dependency node
  raises keeps exactly the coordinates of the nodes before it; a requirements.txt or
  go.mod whose line iterator raises keeps exactly the coordinates of the lines read
  before; and no file removes a coordinate gathered earlier.
\<close>

theorem extraction_errors_contained:
  "(\<exists>r. count_endpoints env path = Inr r)
   \<and> (\<exists>r. count_inter_service_calls env path = Inr r)
   \<and> (\<exists>r. count_dependencies env path = Inr r)
   \<and> (read_text_ignore env (path_join root file) = Inl e \<longrightarrow>
         endpoint_file env root file u = Inr u \<and> call_file env root file m = Inr m)
   \<and> (file = ''pom.xml'' \<and> et_parse env (path_join root file) = Inl e
       \<or> file = ''package.json'' \<and> json_dependencies env (path_join root file) = Inl e
       \<or> file = ''requirements.txt'' \<and> open_lines env (path_join root file) = OpenError e
       \<or> file = ''build.gradle'' \<and> read_text env (path_join root file) = Inl e
       \<or> file = ''go.mod'' \<and> open_lines env (path_join root file) = OpenError e \<longrightarrow>
         dependency_file env file (RootStr root, deps) = Inr (RootStr root, deps))
   \<and> (file = ''pom.xml'' \<and> et_parse env (path_join root file) = Inr (pre @ n # post)
       \<and> pom_dependencies pre deps = (None, deps1) \<and> pom_dependency n deps1 = Inl e \<longrightarrow>
         dependency_file env file (RootStr root, deps) = Inr (RootElement, deps1))
   \<and> (file = ''requirements.txt'' \<and> open_lines env (path_join root file) = Lines ls (Some e) \<longrightarrow>
         dependency_file env file (RootStr root, deps)
           = Inr (RootStr root, fold requirement_line ls deps))
   \<and> (file = ''go.mod'' \<and> open_lines env (path_join root file) = Lines ls (Some e) \<longrightarrow>
         dependency_file env file (RootStr root, deps)
           = Inr (RootStr root, fold go_mod_line ls deps))
   \<and> (dependency_file env file st = Inr st' \<longrightarrow> snd st \<subseteq> snd st')"
proof -
  have a: "read_text_ignore env (path_join root file) = Inl e \<longrightarrow>
         endpoint_file env root file u = Inr u \<and> call_file env root file m = Inr m"
    by (simp add: endpoint_file_def call_file_def except_continue_def endpoint_body_def call_body_def)
  have b: "file = ''pom.xml'' \<and> et_parse env (path_join root file) = Inl e
       \<or> file = ''package.json'' \<and> json_dependencies env (path_join root file) = Inl e
       \<or> file = ''requirements.txt'' \<and> open_lines env (path_join root file) = OpenError e
       \<or> file = ''build.gradle'' \<and> read_text env (path_join root file) = Inl e
       \<or> file = ''go.mod'' \<and> open_lines env (path_join root file) = OpenError e \<longrightarrow>
         dependency_file env file (RootStr root, deps) = Inr (RootStr root, deps)"
    by (auto simp: dependency_file_def os_path_join_def except_continue_def pom_body_def
        package_json_body_def requirements_body_def build_gradle_body_def go_mod_body_def)
  have c: "file = ''pom.xml'' \<and> et_parse env (path_join root file) = Inr (pre @ n # post)
       \<and> pom_dependencies pre deps = (None, deps1) \<and> pom_dependency n deps1 = Inl e \<longrightarrow>
         dependency_file env file (RootStr root, deps) = Inr (RootElement, deps1)"
    using pom_file_raised [of env root pre n post deps deps1 e] by blast
  have d: "file = ''requirements.txt'' \<and> open_lines env (path_join root file) = Lines ls (Some e) \<longrightarrow>
         dependency_file env file (RootStr root, deps)
           = Inr (RootStr root, fold requirement_line ls deps)"
    by (auto simp: requirements_file_result)
  have d': "file = ''go.mod'' \<and> open_lines env (path_join root file) = Lines ls (Some e) \<longrightarrow>
         dependency_file env file (RootStr root, deps)
           = Inr (RootStr root, fold go_mod_line ls deps)"
    by (auto simp: go_mod_file_result)
  have t: "(\<exists>r. count_endpoints env path = Inr r)" "(\<exists>r. count_inter_service_calls env path = Inr r)"
    "(\<exists>r. count_dependencies env path = Inr r)"
    using count_endpoints_total count_inter_service_calls_total count_dependencies_total by blast+
  have mono: "dependency_file env file st = Inr st' \<longrightarrow> snd st \<subseteq> snd st'"
    using dependency_file_mono by blast
  from t a b c d d' mono show ?thesis by (intro conjI)
qed

theorem extraction_errors_contained_witness:
  "read_text_ignore (manifest_env [''app.py'', ''pom.xml''] (Lines [''flask==1.0''] (Some UnicodeDecodeError))
        (Inr [example_dependency None, empty_group_dependency])) (path_join ''svc'' ''app.py'') = Inl OSError
   \<and> endpoint_file (manifest_env [''app.py'', ''pom.xml''] (Lines [''flask==1.0''] (Some UnicodeDecodeError))
        (Inr [example_dependency None, empty_group_dependency])) ''svc'' ''app.py'' {} = Inr {}
   \<and> pom_dependencies [example_dependency None] {} = (None, {''org.a:lib:<inherited>''})
   \<and> pom_dependency empty_group_dependency {''org.a:lib:<inherited>''} = Inl AttributeError
   \<and> dependency_file (manifest_env [''app.py'', ''pom.xml''] (Lines [''flask==1.0''] (Some UnicodeDecodeError))
        (Inr [example_dependency None, empty_group_dependency])) ''pom.xml'' (RootStr ''svc'', {})
       = Inr (RootElement, {''org.a:lib:<inherited>''})
   \<and> dependency_file (manifest_env [''app.py'', ''pom.xml''] (Lines [''flask==1.0''] (Some UnicodeDecodeError))
        (Inr [example_dependency None, empty_group_dependency])) ''requirements.txt'' (RootStr ''svc'', {})
       = Inr (RootStr ''svc'', {''flask''})
   \<and> count_endpoints (manifest_env [''app.py'', ''pom.xml''] (Lines [''flask==1.0''] (Some UnicodeDecodeError))
        (Inr [example_dependency None, empty_group_dependency])) ''svc'' = Inr (0, [])"
proof -
  let ?env = "manifest_env [''app.py'', ''pom.xml''] (Lines [''flask==1.0''] (Some UnicodeDecodeError))
        (Inr [example_dependency None, empty_group_dependency])"
  have r: "read_text_ignore ?env (path_join ''svc'' ''app.py'') = Inl OSError"
    by (simp add: manifest_env_def)
  have p: "et_parse ?env (path_join ''svc'' ''pom.xml'') = Inr ([example_dependency None] @ empty_group_dependency # [])"
    by (simp add: manifest_env_def)
  have l: "open_lines ?env (path_join ''svc'' ''requirements.txt'') = Lines [''flask==1.0''] (Some UnicodeDecodeError)"
    by (simp add: manifest_env_def)
  have pre: "pom_dependencies [example_dependency None] {} = (None, {''org.a:lib:<inherited>''})"
    by (simp add: pom_eval_defs)
  have bad: "pom_dependency empty_group_dependency {''org.a:lib:<inherited>''} = Inl AttributeError"
    by (simp add: pom_eval_defs)
  have e: "endpoint_file ?env ''svc'' ''app.py'' {} = Inr {}"
    using extraction_errors_contained [where env = ?env and root = "''svc''" and ?file = "''app.py''"
        and e = OSError and u = "{}"] r
    by simp
  have d: "dependency_file ?env ''pom.xml'' (RootStr ''svc'', {}) = Inr (RootElement, {''org.a:lib:<inherited>''})"
    using extraction_errors_contained [where env = ?env and root = "''svc''" and ?file = "''pom.xml''"
        and e = AttributeError and pre = "[example_dependency None]" and n = empty_group_dependency
        and post = "[]" and deps = "{}" and ?deps1.0 = "{''org.a:lib:<inherited>''}"] p pre bad
    by simp
  have q: "dependency_file ?env ''requirements.txt'' (RootStr ''svc'', {}) = Inr (RootStr ''svc'', {''flask''})"
    using extraction_errors_contained [where env = ?env and root = "''svc''"
        and ?file = "''requirements.txt''" and e = UnicodeDecodeError and deps = "{}"
        and ls = "[''flask==1.0'']"] l
    by (simp add: requirement_line_def str_defs)
  have c: "count_endpoints ?env ''svc'' = Inr (0, [])"
    by (simp add: eval_defs count_endpoints_def endpoint_dir_def endpoint_file_def endpoint_body_def
        has_extension_def sorted_of_def)
  from r pre bad e d q c show ?thesis by blast
qed

section \<open>Scope filtering\<close>

text \<open>
  C8 as stated fails: an entry without scope whose version element is empty raises and is
  not included, and neither is a well-formed entry listed after a node that raised.
\<close>

theorem empty_version_not_included:
  "pom_dependencies [empty_version_dependency (Some (Some ''test''))] {} = (None, {})
   \<and> pom_dependencies [empty_version_dependency None] {} = (Some AttributeError, {})
   \<and> count_dependencies (manifest_env [''pom.xml''] (OpenError OSError)
         (Inr [empty_version_dependency None])) ''svc'' = Inr {}
   \<and> count_dependencies (manifest_env [''pom.xml''] (OpenError OSError)
         (Inr [empty_group_dependency, junit_dependency None])) ''svc'' = Inr {}"
  by (simp add: pom_eval_defs)

text \<open>
  C8, as amended. In a POM, a dependency whose trimmed scope text is one of the unwanted
  scopes has no effect: the returned dependency set is the one of the POM without that
  entry. The same entry with no scope, or with another scope, whose group and artifact
  have text and whose version is absent or has text, is in the returned dependency set
  as group:artifact:version (\<open><inherited>\<close> for an absent version), provided no
  earlier node of that POM raises and the pom.xml is the first of its name in a
  directory of the walk that is not excluded.
\<close>

theorem unwanted_scope_excluded:
  assumes "scope n = Some (Some s)" and "py_strip s \<in> UNWANTED_SCOPES"
  shows "pom_dependency n deps = Inr deps
    \<and> pom_dependencies (pre @ n # post) deps = pom_dependencies (pre @ post) deps
    \<and> count_dependencies (with_pom env p (pre @ n # post)) path
        = count_dependencies (with_pom env p (pre @ post)) path
    \<and> (groupId n = Some (Some g) \<and> artifactId n = Some (Some a)
        \<and> (version n = None \<and> v = ''<inherited>'' \<or> version n = Some (Some t) \<and> v = py_strip t)
        \<and> (sc = None \<or> (\<exists>s'. sc = Some (Some s') \<and> py_strip s' \<notin> UNWANTED_SCOPES))
       \<longrightarrow> pom_dependency (n\<lparr>scope := sc\<rparr>) deps
             = Inr (insert (py_strip g @ '':'' @ py_strip a @ '':'' @ v) deps)
         \<and> (fst (pom_dependencies pre {}) = None
             \<and> (root, fpre @ ''pom.xml'' # fpost) \<in> set (os_walk_at env path)
             \<and> \<not> is_excluded_path root \<and> ''pom.xml'' \<notin> set fpre
             \<and> p = path_join root ''pom.xml''
            \<longrightarrow> (\<exists>D. count_dependencies (with_pom env p (pre @ n\<lparr>scope := sc\<rparr> # post)) path = Inr D
                  \<and> py_strip g @ '':'' @ py_strip a @ '':'' @ v \<in> D)))"
proof -
  have skip: "pom_dependency n d = Inr d" for d
    using assms by (rule unwanted_scope_skipped)
  have lists: "pom_dependencies (pre @ n # post) d = pom_dependencies (pre @ post) d" for d
    using skip by (rule pom_dependencies_skip)
  have counts: "count_dependencies (with_pom env p (pre @ n # post)) path
        = count_dependencies (with_pom env p (pre @ post)) path"
    using lists by (rule with_pom_count_dependencies)
  let ?c = "py_strip g @ '':'' @ py_strip a @ '':'' @ v"
  let ?n = "n\<lparr>scope := sc\<rparr>"
  {
    assume wf: "groupId n = Some (Some g)" "artifactId n = Some (Some a)"
      "version n = None \<and> v = ''<inherited>'' \<or> version n = Some (Some t) \<and> v = py_strip t"
      "sc = None \<or> (\<exists>s'. sc = Some (Some s') \<and> py_strip s' \<notin> UNWANTED_SCOPES)"
    have inc: "pom_dependency ?n d = Inr (insert ?c d)" for d
      using wf by (auto simp: pom_dependency_def text_strip_def)
    {
      assume pre: "fst (pom_dependencies pre {}) = None"
        and walk: "(root, fpre @ ''pom.xml'' # fpost) \<in> set (os_walk_at env path)"
        and ne: "\<not> is_excluded_path root" and first: "''pom.xml'' \<notin> set fpre"
        and p: "p = path_join root ''pom.xml''"
      let ?env = "with_pom env p (pre @ ?n # post)"
      have w: "(root, fpre @ ''pom.xml'' # fpost) \<in> set (os_walk_at ?env path)"
        using walk by (simp add: with_pom_same_walk)
      have parse: "et_parse ?env (path_join root ''pom.xml'') = Inr (pre @ ?n # post)"
        by (simp add: with_pom_def p)
      have "\<exists>D. count_dependencies ?env path = Inr D \<and> ?c \<in> D"
        using w ne first parse
        by (rule pom_in_walk) (rule coordinate_included [OF pre inc])
    }
    note reach = this
    from inc reach have "pom_dependency ?n deps = Inr (insert ?c deps)
      \<and> (fst (pom_dependencies pre {}) = None
             \<and> (root, fpre @ ''pom.xml'' # fpost) \<in> set (os_walk_at env path)
             \<and> \<not> is_excluded_path root \<and> ''pom.xml'' \<notin> set fpre
             \<and> p = path_join root ''pom.xml''
            \<longrightarrow> (\<exists>D. count_dependencies (with_pom env p (pre @ ?n # post)) path = Inr D \<and> ?c \<in> D))"
      by blast
  }
  with skip lists counts show ?thesis by blast
qed

theorem unwanted_scope_excluded_witness:
  "count_dependencies (with_pom (manifest_env [''pom.xml''] (OpenError OSError) (Inl ParseError))
        ''svc/pom.xml'' [example_dependency None, junit_dependency (Some (Some '' test ''))]) ''svc''
     = Inr {''org.a:lib:<inherited>''}
   \<and> count_dependencies (with_pom (manifest_env [''pom.xml''] (OpenError OSError) (Inl ParseError))
        ''svc/pom.xml'' [example_dependency None, junit_dependency None]) ''svc''
     = Inr {''org.a:lib:<inherited>'', ''junit:junit:4.13''}
   \<and> fst (pom_dependencies [example_dependency None] {}) = None
   \<and> (''svc'', [] @ ''pom.xml'' # [])
        \<in> set (os_walk_at (manifest_env [''pom.xml''] (OpenError OSError) (Inl ParseError)) ''svc'')
   \<and> \<not> is_excluded_path ''svc''
   \<and> ''svc/pom.xml'' = path_join ''svc'' ''pom.xml''"
proof -
  let ?E = "manifest_env [''pom.xml''] (OpenError OSError) (Inl ParseError)"
  let ?n = "junit_dependency (Some (Some '' test ''))"
  have u: "scope ?n = Some (Some '' test '')" "py_strip '' test '' \<in> UNWANTED_SCOPES"
    by (simp_all add: junit_dependency_def str_defs UNWANTED_SCOPES_def)
  note th = unwanted_scope_excluded [OF u, of "{}" "[example_dependency None]" "[]" ?E "''svc/pom.xml''"
      "''svc''" "''junit''" "''junit''" "''4.13''" "''4.13''" None "''svc''" "[]" "[]"]
  have one: "count_dependencies (with_pom ?E ''svc/pom.xml'' [example_dependency None]) ''svc''
      = Inr {''org.a:lib:<inherited>''}"
    by (simp add: pom_eval_defs)
  have a: "count_dependencies (with_pom ?E ''svc/pom.xml'' [example_dependency None, ?n]) ''svc''
      = Inr {''org.a:lib:<inherited>''}"
    using th one by simp
  have b: "count_dependencies (with_pom ?E ''svc/pom.xml''
        [example_dependency None, junit_dependency None]) ''svc''
      = Inr {''org.a:lib:<inherited>'', ''junit:junit:4.13''}"
    by (simp add: pom_eval_defs insert_commute)
  have c: "fst (pom_dependencies [example_dependency None] {}) = None"
    by (simp add: pom_eval_defs)
  have d: "(''svc'', [] @ ''pom.xml'' # []) \<in> set (os_walk_at ?E ''svc'')"
    by (simp add: manifest_env_def os_walk_at_def)
  have e: "\<not> is_excluded_path ''svc''"
    by (simp add: is_excluded_path_def EXCLUDE_DIRS_def)
  have f: "''svc/pom.xml'' = path_join ''svc'' ''pom.xml''"
    by (simp add: path_join_def endswith_def)
  from a b c d e f show ?thesis by blast
qed

section \<open>Aggregation\<close>

lemma fold_aggregate_sets:
  "all_eps (fold aggregate rs t) = all_eps t \<union> (\<Union>r \<in> set rs. set (snd (fst r)))
   \<and> all_calls (fold aggregate rs t) = all_calls t \<union> (\<Union>r \<in> set rs. set (snd (fst (snd r))))
   \<and> all_deps (fold aggregate rs t) = all_deps t \<union> (\<Union>r \<in> set rs. snd (snd r))
   \<and> total_eps (fold aggregate rs t) = total_eps t + sum_list (map (\<lambda>r. fst (fst r)) rs)"
proof (induction rs arbitrary: t)
  case Nil
  then show ?case by simp
next
  case (Cons r rs)
  note ih = Cons.IH [of "aggregate r t"]
  have a: "all_eps (aggregate r t) = all_eps t \<union> set (snd (fst r))"
    and b: "all_calls (aggregate r t) = all_calls t \<union> set (snd (fst (snd r)))"
    and c: "all_deps (aggregate r t) = all_deps t \<union> snd (snd r)"
    and d: "total_eps (aggregate r t) = total_eps t + fst (fst r)"
    by (simp_all add: aggregate_def split: prod.splits)
  show ?case
    by (simp add: ih a b c d Un_assoc)
qed

lemma summary_counts:
  "Dependencies (summary_row p d (fold aggregate rs empty_totals)) = card (\<Union>r \<in> set rs. snd (snd r))
   \<and> InterServiceCommunications (summary_row p d (fold aggregate rs empty_totals))
       = card (\<Union>r \<in> set rs. set (snd (fst (snd r))))
   \<and> Endpoints (summary_row p d (fold aggregate rs empty_totals)) = sum_list (map (\<lambda>r. fst (fst r)) rs)"
  by (simp add: summary_row_def fold_aggregate_sets empty_totals_def)

text \<open>
  C2. Each count of the summary is the cardinality of the union set. The code keeps this
  for dependencies and calls (lemma \<open>summary_counts\<close>) and breaks it for endpoints:
  the endpoint count is the sum of the modules' counts, so an endpoint that two modules
  declare is counted twice while the endpoint list holds it once.
\<close>

theorem endpoint_count_is_summed:
  "analyze_service two_module_env ''repo'' d =
     Inr \<lparr>Service = ''repo'', Date = d, Endpoints = 2, Dependencies = 0,
          InterServiceCommunications = 0,
          DependencyList = [CHR 0x22, CHR 0x22],
          EndpointList = [CHR 0x22] @ ''GET /x'' @ [CHR 0x22],
          InterServiceCommunicationsList = [CHR 0x22, CHR 0x22]\<rparr>
   \<and> Endpoints (summary_row ''repo'' d
         (fold aggregate [((1, [''GET /x'']), (0, []), {}), ((1, [''GET /x'']), (0, []), {})] empty_totals)) = 2
   \<and> card (all_eps
         (fold aggregate [((1, [''GET /x'']), (0, []), {}), ((1, [''GET /x'']), (0, []), {})] empty_totals)) = 1"
proof -
  have ep: "count_endpoints two_module_env p = Inr (1, [''GET /x''])" if "p = ''repo/a'' \<or> p = ''repo/b''" for p
    using that
    by (auto simp: two_module_env_def os_walk_at_def path_join_def endswith_def count_endpoints_def
     endpoint_dir_def is_excluded_path_def EXCLUDE_DIRS_def endpoint_file_def endpoint_body_def
     except_continue_def has_extension_def add_endpoints_def API_ENDPOINT_PATTERNS_def
     normalize_path_def sorted_of_def strip_chars_def enumerate_eq_zip upt_rec)
  have ca: "count_inter_service_calls two_module_env p = Inr (0, [])" if "p = ''repo/a'' \<or> p = ''repo/b''" for p
    using that
    by (auto simp: two_module_env_def os_walk_at_def path_join_def endswith_def count_inter_service_calls_def
     call_dir_def is_excluded_path_def EXCLUDE_DIRS_def call_file_def call_body_def
     except_continue_def has_extension_def add_calls_def CALL_PATTERNS_def
     sorted_of_def upt_rec)
  have de: "count_dependencies two_module_env p = Inr {}" if "p = ''repo/a'' \<or> p = ''repo/b''" for p
    using that
    by (auto simp: two_module_env_def os_walk_at_def path_join_def endswith_def count_dependencies_def
     dependency_dir_def is_excluded_path_def EXCLUDE_DIRS_def dependency_file_def os_path_join_def)
  have mp: "module_paths two_module_env ''repo'' = [''repo/a'', ''repo/b'']"
    by (simp add: module_paths_def two_module_env_def path_join_def endswith_def)
  have "analyze_service two_module_env ''repo'' d =
     Inr \<lparr>Service = ''repo'', Date = d, Endpoints = 2, Dependencies = 0,
          InterServiceCommunications = 0,
          DependencyList = [CHR 0x22, CHR 0x22],
          EndpointList = [CHR 0x22] @ ''GET /x'' @ [CHR 0x22],
          InterServiceCommunicationsList = [CHR 0x22, CHR 0x22]\<rparr>"
    by (simp add: analyze_service_def mp analyze_module_def ep ca de aggregate_def empty_totals_def
        summary_row_def basename_def quoted_list_def sorted_of_def)
  moreover have "Endpoints (summary_row ''repo'' d
         (fold aggregate [((1, [''GET /x'']), (0, []), {}), ((1, [''GET /x'']), (0, []), {})] empty_totals)) = 2"
    by (simp add: summary_row_def aggregate_def empty_totals_def)
  moreover have "card (all_eps
         (fold aggregate [((1, [''GET /x'']), (0, []), {}), ((1, [''GET /x'']), (0, []), {})] empty_totals)) = 1"
    by (simp add: aggregate_def empty_totals_def)
  ultimately show ?thesis by simp
qed

section \<open>Snapshot dates\<close>

lemmas walker_defs = get_commits_def start_date_def anchor_def timedelta_of_def datetime_of_def
  period_delta_def weekday_def strftime_date_def day_us_def example_now_def example_git_def
  resolve_commits_def snapshot_step_def

lemma day_us_pos: "0 < day_us"
  by (simp add: day_us_def)

lemma period_delta_nonneg: "0 \<le> period_delta f"
  by (simp add: period_delta_def day_us_def)

lemma date_mono:
  assumes "0 \<le> delta" "x \<le> y"
  shows "strftime_date (start + x * delta) \<le> strftime_date (start + y * delta)"
proof -
  from assms have "x * delta \<le> y * delta" by (simp add: mult_right_mono)
  then have "start + x * delta \<le> start + y * delta" by simp
  then show ?thesis unfolding strftime_date_def using day_us_pos by (simp add: zdiv_mono1)
qed

lemma snapshot_step_cases:
  assumes "snapshot_step g b start delta i cs = Inr cs'"
  shows "cs' = cs \<or> (\<exists>c. cs' = cs @ [(c, strftime_date (start + i * delta))])"
  using assms
  by (auto simp: snapshot_step_def timedelta_of_def datetime_of_def
      split: sum.splits if_splits)

lemma for_each_sorted:
  assumes "0 \<le> delta"
  shows "for_each (snapshot_step g b start delta) xs cs = Inr cs' \<Longrightarrow> sorted xs
    \<Longrightarrow> sorted (map snd cs)
    \<Longrightarrow> (\<forall>c \<in> set cs. \<forall>x \<in> set xs. snd c \<le> strftime_date (start + x * delta))
    \<Longrightarrow> sorted (map snd cs')"
proof (induction xs arbitrary: cs)
  case Nil
  then show ?case by simp
next
  case (Cons x xs)
  from Cons.prems(1) obtain cs1 where
    step: "snapshot_step g b start delta x cs = Inr cs1"
    and rest: "for_each (snapshot_step g b start delta) xs cs1 = Inr cs'"
    by (auto split: sum.splits)
  from Cons.prems(2) have sx: "sorted xs" and le: "\<forall>y \<in> set xs. x \<le> y" by auto
  from snapshot_step_cases [OF step]
  consider "cs1 = cs" | c where "cs1 = cs @ [(c, strftime_date (start + x * delta))]" by blast
  then show ?case
  proof cases
    case 1
    with Cons.prems(3,4) have "sorted (map snd cs1)"
      and "\<forall>c \<in> set cs1. \<forall>y \<in> set xs. snd c \<le> strftime_date (start + y * delta)"
      by auto
    with Cons.IH [OF rest sx] show ?thesis by blast
  next
    case 2
    from Cons.prems(3,4) have s1: "sorted (map snd cs1)"
      by (auto simp: 2 sorted_append)
    have "\<forall>c \<in> set cs1. \<forall>y \<in> set xs. snd c \<le> strftime_date (start + y * delta)"
      using Cons.prems(4) le date_mono [OF assms] by (auto simp: 2)
    with Cons.IH [OF rest sx s1] show ?thesis by blast
  qed
qed

lemma sorted_range: "sorted (map int [0 ..< n])"
  by (simp add: sorted_map)

lemma resolve_commits_sorted:
  "resolve_commits g b start (period_delta f) n = Inr cs \<Longrightarrow> sorted (map snd cs)"
  unfolding resolve_commits_def
  using for_each_sorted [OF period_delta_nonneg _ sorted_range, of g b start f _ "[]" cs]
  by simp

lemma get_commits_cases:
  assumes "get_commits g now f n = Inr cs"
  shows "cs = [] \<or> (\<exists>start b. start_date now f n = Inr start
      \<and> resolve_commits g b start (period_delta f) n = Inr cs)"
  using assms
  by (auto simp: get_commits_def split: sum.splits option.splits)

lemma get_commits_sorted:
  "get_commits g now f n = Inr cs \<Longrightarrow> sorted (map snd cs)"
  using get_commits_cases resolve_commits_sorted by fastforce

lemma start_date_zero:
  "start_date now f 0 = Inr start \<Longrightarrow> anchor now f = Inr start"
  by (auto simp: start_date_def timedelta_of_def datetime_of_def split: sum.splits if_splits)

lemma resolve_commits_zero:
  "resolve_commits g b start delta 0 = Inr cs
    \<Longrightarrow> cs = [] \<or> (\<exists>c. cs = [(c, strftime_date start)])"
  using snapshot_step_cases [of g b start delta 0 "[]" cs]
  by (auto simp: resolve_commits_def split: sum.splits)

lemma get_commits_zero:
  assumes "get_commits g now f 0 = Inr cs"
  shows "cs = [] \<or> (\<exists>a c. anchor now f = Inr a \<and> cs = [(c, strftime_date a)])"
proof -
  from get_commits_cases [OF assms]
  consider "cs = []" | start b where "start_date now f 0 = Inr start"
      "resolve_commits g b start (period_delta f) 0 = Inr cs" by blast
  then show ?thesis
  proof cases
    case 1
    then show ?thesis by simp
  next
    case 2
    from start_date_zero [OF 2(1)] resolve_commits_zero [OF 2(2)] show ?thesis by blast
  qed
qed

lemma for_each_total_on:
  "(\<And>x s. x \<in> set xs \<Longrightarrow> \<exists>s'. body x s = Inr s') \<Longrightarrow> \<exists>s'. for_each body xs s = Inr s'"
proof (induction xs arbitrary: s)
  case Nil
  then show ?case by simp
next
  case (Cons x xs)
  from Cons.prems obtain s1 where "body x s = Inr s1" by fastforce
  moreover from Cons.IH [of s1] Cons.prems obtain s2 where "for_each body xs s1 = Inr s2"
    by fastforce
  ultimately show ?case by simp
qed

lemma snapshot_step_returns:
  assumes "git_runs g"
    and "- 999999999 \<le> (i * delta) div day_us" and "(i * delta) div day_us \<le> 999999999"
    and "0 \<le> start + i * delta" and "start + i * delta < 3652059 * day_us"
  shows "\<exists>cs'. snapshot_step g b start delta i cs = Inr cs'"
proof (cases "rev_list_before g (strftime_date (start + i * delta)) b")
  case (Inl e)
  with assms(1) have "e = CalledProcessError" by (auto simp: git_runs_def)
  with Inl assms(2-5) show ?thesis
    by (simp add: snapshot_step_def timedelta_of_def datetime_of_def)
next
  case (Inr out)
  with assms(2-5) show ?thesis
    by (simp add: snapshot_step_def timedelta_of_def datetime_of_def)
qed

lemma anchor_le:
  assumes "datetime_of now = Inr now" "anchor now f = Inr a"
  shows "a \<le> now"
proof (cases "f = ''weekly''")
  case True
  have "0 \<le> weekday now * day_us" using day_us_pos by (simp add: weekday_def)
  with True assms(2) show ?thesis
    by (auto simp: anchor_def datetime_of_def split: if_splits)
next
  case False
  with assms(2) show ?thesis by (simp add: anchor_def)
qed

lemma resolve_commits_returns:
  assumes g: "git_runs g" and now: "datetime_of now = Inr now"
    and sd: "start_date now f n = Inr start"
  shows "\<exists>cs. resolve_commits g b start (period_delta f) n = Inr cs"
  unfolding resolve_commits_def
proof (rule for_each_total_on)
  fix x :: int and s :: "(string \<times> date) list"
  assume "x \<in> set (map int [0 ..< nat (n + 1)])"
  then have x: "0 \<le> x" "x \<le> n" by auto
  let ?d = "period_delta f"
  from sd obtain a where a: "anchor now f = Inr a"
    and td: "(?d * n) div day_us \<le> 999999999"
    and st: "start = a - ?d * n" "0 \<le> start"
    by (auto simp: start_date_def timedelta_of_def datetime_of_def split: sum.splits if_splits)
  from now have now_lt: "now < 3652059 * day_us" by (auto simp: datetime_of_def split: if_splits)
  have d0: "0 \<le> ?d" by (rule period_delta_nonneg)
  from x d0 have "x * ?d \<le> n * ?d" by (simp add: mult_right_mono)
  with x d0 have xd: "0 \<le> x * ?d" "x * ?d \<le> ?d * n"
    by (simp_all add: mult.commute)
  from xd(1) have lo: "0 \<le> (x * ?d) div day_us" using day_us_pos by (simp add: pos_imp_zdiv_nonneg_iff)
  from xd(2) have "(x * ?d) div day_us \<le> (?d * n) div day_us" using day_us_pos by (simp add: zdiv_mono1)
  with td have hi: "(x * ?d) div day_us \<le> 999999999" by simp
  from st xd(1) have r0: "0 \<le> start + x * ?d" by simp
  from st xd(2) anchor_le [OF now a] now_lt have r1: "start + x * ?d < 3652059 * day_us" by simp
  from lo have lo': "- 999999999 \<le> (x * ?d) div day_us" by simp
  from snapshot_step_returns [OF g lo' hi r0 r1]
  show "\<exists>s'. snapshot_step g b start ?d x s = Inr s'" .
qed

lemma find_branch_returns:
  "git_runs g \<Longrightarrow> \<exists>r. find_branch g bs = Inr r"
proof (induction bs)
  case Nil
  then show ?case by simp
next
  case (Cons b bs)
  then show ?case by (cases "rev_parse_verify g b") (auto simp: git_runs_def)
qed

lemma get_commits_returns:
  assumes "git_runs g" "datetime_of now = Inr now" "start_date now f n = Inr start"
  shows "\<exists>cs. get_commits g now f n = Inr cs"
proof -
  from find_branch_returns [OF assms(1)] obtain r
    where r: "find_branch g [''main'', ''master'', ''develop''] = Inr r" by blast
  show ?thesis
  proof (cases r)
    case None
    with r assms(3) show ?thesis by (simp add: get_commits_def)
  next
    case (Some b)
    from resolve_commits_returns [OF assms] obtain cs
      where "resolve_commits g b start (period_delta f) n = Inr cs" by blast
    with r Some assms(3) show ?thesis by (simp add: get_commits_def)
  qed
qed

lemma start_date_zero_returns:
  assumes "datetime_of now = Inr now"
  shows "\<exists>start. start_date now f 0 = Inr start"
proof -
  from assms have n: "0 \<le> now" "now < 3652059 * day_us"
    by (auto simp: datetime_of_def split: if_splits)
  have "(now div day_us) mod 7 \<le> now div day_us"
    using n(1) day_us_pos by (simp add: pos_imp_zdiv_nonneg_iff zmod_le_nonneg_dividend)
  then have "(now div day_us) mod 7 * day_us \<le> (now div day_us) * day_us"
    using day_us_pos by (simp add: mult_right_mono)
  also have "\<dots> \<le> now" using day_us_pos by (metis mult.commute pos_mod_sign minus_mod_eq_mult_div [symmetric] diff_le_eq add_increasing2 order_refl)
  finally have w: "weekday now * day_us \<le> now" by (simp add: weekday_def)
  have w0: "0 \<le> weekday now * day_us" using day_us_pos by (simp add: weekday_def)
  from n w w0 show ?thesis
    by (simp add: start_date_def anchor_def datetime_of_def timedelta_of_def)
qed

text \<open>
  C4 as stated fails: with 0 periods and a primary branch that has no commit before the
  anchor date, \<open>rev-list\<close> prints nothing and the walker returns no snapshot.
\<close>

theorem zero_periods_no_commit:
  "get_commits (example_git [''main''] (\<lambda>d b. []) []) example_now ''weekly'' 0 = Inr []"
  by (simp add: walker_defs py_strip_def)

lemma anchor_valid:
  assumes "datetime_of now = Inr now" "anchor now f = Inr a"
  shows "datetime_of a = Inr a"
  using assms by (auto simp: anchor_def datetime_of_def split: if_splits)

lemma start_date_zero_anchor:
  assumes "datetime_of now = Inr now" "anchor now f = Inr a"
  shows "start_date now f 0 = Inr a"
  using anchor_valid [OF assms] assms(2) by (simp add: start_date_def timedelta_of_def)

lemma anchor_returns: "datetime_of now = Inr now \<Longrightarrow> \<exists>a. anchor now f = Inr a"
  using start_date_zero_returns [of now f] by (auto simp: start_date_def split: sum.splits)

lemma resolve_commits_zero_eq:
  assumes "datetime_of a = Inr a"
  shows "resolve_commits g b a delta 0 =
     (case rev_list_before g (strftime_date a) b of
        Inl e \<Rightarrow> if e = CalledProcessError then Inr [] else Inl e
      | Inr out \<Rightarrow> if py_strip out \<noteq> [] then Inr [(py_strip out, strftime_date a)] else Inr [])"
  using assms
  by (simp add: resolve_commits_def snapshot_step_def timedelta_of_def split: sum.splits)

lemma get_commits_zero_eq:
  assumes "datetime_of now = Inr now" "anchor now f = Inr a"
  shows "get_commits g now f 0 =
     (case find_branch g [''main'', ''master'', ''develop''] of
        Inl e \<Rightarrow> Inl e
      | Inr None \<Rightarrow> Inr []
      | Inr (Some b) \<Rightarrow>
          (case rev_list_before g (strftime_date a) b of
             Inl e \<Rightarrow> if e = CalledProcessError then Inr [] else Inl e
           | Inr out \<Rightarrow> if py_strip out \<noteq> [] then Inr [(py_strip out, strftime_date a)] else Inr []))"
  using start_date_zero_anchor [OF assms] resolve_commits_zero_eq [OF anchor_valid [OF assms]]
  by (simp add: get_commits_def split: sum.splits option.splits)

text \<open>
  C4, as amended. The dates of the snapshots the walker returns are non-decreasing, and
  it returns whenever the start date can be computed. With 0 periods it returns exactly
  one snapshot, dated at the anchor date, when a primary branch verifies and
  \<open>rev-list\<close> prints a commit for that date, and no snapshot when no branch verifies
  or \<open>rev-list\<close> fails or prints nothing.
\<close>

theorem walker_dates:
  "(get_commits g now f n = Inr cs \<longrightarrow> sorted (map snd cs))
   \<and> (get_commits g now f 0 = Inr cs0 \<longrightarrow>
        cs0 = [] \<or> (\<exists>a c. anchor now f = Inr a \<and> cs0 = [(c, strftime_date a)]))
   \<and> (git_runs g \<and> datetime_of now = Inr now \<and> start_date now f n = Inr start \<longrightarrow>
        (\<exists>cs'. get_commits g now f n = Inr cs'))
   \<and> (git_runs g \<and> datetime_of now = Inr now \<longrightarrow> (\<exists>cs'. get_commits g now f 0 = Inr cs'))
   \<and> (datetime_of now = Inr now \<longrightarrow> (\<exists>a'. anchor now f = Inr a'))
   \<and> (datetime_of now = Inr now \<and> anchor now f = Inr a
        \<and> find_branch g [''main'', ''master'', ''develop''] = Inr (Some b)
        \<and> rev_list_before g (strftime_date a) b = Inr out \<and> py_strip out \<noteq> [] \<longrightarrow>
          get_commits g now f 0 = Inr [(py_strip out, strftime_date a)])
   \<and> (datetime_of now = Inr now \<and> anchor now f = Inr a
        \<and> (find_branch g [''main'', ''master'', ''develop''] = Inr None
            \<or> find_branch g [''main'', ''master'', ''develop''] = Inr (Some b)
              \<and> (rev_list_before g (strftime_date a) b = Inl CalledProcessError
                  \<or> rev_list_before g (strftime_date a) b = Inr out \<and> py_strip out = [])) \<longrightarrow>
          get_commits g now f 0 = Inr [])
   \<and> (rev_parse_verify g ''main'' = Inr o1 \<longrightarrow>
        find_branch g [''main'', ''master'', ''develop''] = Inr (Some ''main''))
   \<and> (rev_parse_verify g ''main'' = Inl CalledProcessError
        \<and> rev_parse_verify g ''master'' = Inl CalledProcessError
        \<and> rev_parse_verify g ''develop'' = Inl CalledProcessError \<longrightarrow>
        find_branch g [''main'', ''master'', ''develop''] = Inr None)"
proof -
  have c1: "get_commits g now f n = Inr cs \<longrightarrow> sorted (map snd cs)"
    using get_commits_sorted by blast
  have c2: "get_commits g now f 0 = Inr cs0 \<longrightarrow>
        cs0 = [] \<or> (\<exists>a c. anchor now f = Inr a \<and> cs0 = [(c, strftime_date a)])"
    using get_commits_zero by blast
  have c3: "git_runs g \<and> datetime_of now = Inr now \<and> start_date now f n = Inr start \<longrightarrow>
        (\<exists>cs'. get_commits g now f n = Inr cs')"
    using get_commits_returns by blast
  have c4: "git_runs g \<and> datetime_of now = Inr now \<longrightarrow> (\<exists>cs'. get_commits g now f 0 = Inr cs')"
    using start_date_zero_returns [of now f] get_commits_returns [of g now f 0] by blast
  have c5: "datetime_of now = Inr now \<longrightarrow> (\<exists>a'. anchor now f = Inr a')"
    using anchor_returns by blast
  have c6: "datetime_of now = Inr now \<and> anchor now f = Inr a
        \<and> find_branch g [''main'', ''master'', ''develop''] = Inr (Some b)
        \<and> rev_list_before g (strftime_date a) b = Inr out \<and> py_strip out \<noteq> [] \<longrightarrow>
          get_commits g now f 0 = Inr [(py_strip out, strftime_date a)]"
    by (auto simp: get_commits_zero_eq)
  have c7: "datetime_of now = Inr now \<and> anchor now f = Inr a
        \<and> (find_branch g [''main'', ''master'', ''develop''] = Inr None
            \<or> find_branch g [''main'', ''master'', ''develop''] = Inr (Some b)
              \<and> (rev_list_before g (strftime_date a) b = Inl CalledProcessError
                  \<or> rev_list_before g (strftime_date a) b = Inr out \<and> py_strip out = [])) \<longrightarrow>
          get_commits g now f 0 = Inr []"
    by (auto simp: get_commits_zero_eq)
  have c8: "rev_parse_verify g ''main'' = Inr o1 \<longrightarrow>
        find_branch g [''main'', ''master'', ''develop''] = Inr (Some ''main'')"
    by simp
  have c9: "rev_parse_verify g ''main'' = Inl CalledProcessError
        \<and> rev_parse_verify g ''master'' = Inl CalledProcessError
        \<and> rev_parse_verify g ''develop'' = Inl CalledProcessError \<longrightarrow>
        find_branch g [''main'', ''master'', ''develop''] = Inr None"
    by simp
  from c1 c2 c3 c4 c5 c6 c7 c8 c9 show ?thesis by (intro conjI)
qed

theorem walker_dates_witness:
  "get_commits (example_git [''main''] (\<lambda>d b. if d < 739920 then ''c1'' else ''c2'') [])
       example_now ''weekly'' 1 = Inr [(''c1'', 739914), (''c2'', 739921)]
   \<and> sorted (map snd [(''c1'', 739914 :: int), (''c2'', 739921)])
   \<and> datetime_of example_now = Inr example_now
   \<and> anchor example_now ''weekly'' = Inr (739921 * day_us + 43200000000)
   \<and> find_branch (example_git [''main''] (\<lambda>d b. ''c2'' @ [CHR 0x0A]) []) [''main'', ''master'', ''develop'']
       = Inr (Some ''main'')
   \<and> rev_list_before (example_git [''main''] (\<lambda>d b. ''c2'' @ [CHR 0x0A]) [])
         (strftime_date (739921 * day_us + 43200000000)) ''main'' = Inr (''c2'' @ [CHR 0x0A])
   \<and> get_commits (example_git [''main''] (\<lambda>d b. ''c2'' @ [CHR 0x0A]) []) example_now ''weekly'' 0
       = Inr [(''c2'', 739921)]
   \<and> git_runs (example_git [''main''] (\<lambda>d b. ''c2'' @ [CHR 0x0A]) [])"
proof -
  let ?g = "example_git [''main''] (\<lambda>d b. if d < 739920 then ''c1'' else ''c2'') []"
  let ?h = "example_git [''main''] (\<lambda>d b. ''c2'' @ [CHR 0x0A]) []"
  let ?a = "739921 * day_us + 43200000000"
  have a: "get_commits ?g example_now ''weekly'' 1 = Inr [(''c1'', 739914), (''c2'', 739921)]"
    by (simp add: walker_defs upt_rec py_strip_def strip_chars_def whitespace_def)
  have s: "sorted (map snd [(''c1'', 739914 :: int), (''c2'', 739921)])"
    using walker_dates [where g = ?g and now = example_now and f = "''weekly''" and n = 1
        and cs = "[(''c1'', 739914), (''c2'', 739921)]"] a
    by blast
  have e: "datetime_of example_now = Inr example_now"
    by (simp add: walker_defs)
  have c: "anchor example_now ''weekly'' = Inr ?a"
    by (simp add: walker_defs)
  have fb: "find_branch ?h [''main'', ''master'', ''develop''] = Inr (Some ''main'')"
    by (simp add: example_git_def)
  have rl: "rev_list_before ?h (strftime_date ?a) ''main'' = Inr (''c2'' @ [CHR 0x0A])"
    by (simp add: example_git_def)
  have st: "py_strip (''c2'' @ [CHR 0x0A]) = ''c2''" "strftime_date ?a = 739921"
    by (simp_all add: str_defs strftime_date_def day_us_def)
  have b: "get_commits ?h example_now ''weekly'' 0 = Inr [(''c2'', 739921)]"
    using walker_dates [where g = ?h and now = example_now and f = "''weekly''" and a = ?a
        and b = "''main''" and out = "''c2'' @ [CHR 0x0A]"] e c fb rl st
    by simp
  have d: "git_runs ?h"
    by (simp add: git_runs_def example_git_def)
  from a s e c fb rl b d show ?thesis by blast
qed

section \<open>Branch discovery\<close>

text \<open>
  C7 as stated fails: the start date is computed before the branches are probed, and for
  5000 monthly periods it lies before the year 1, so the walker raises
  \<open>OverflowError\<close> although no branch exists.
\<close>

theorem no_branch_overflow:
  "get_commits (example_git [] (\<lambda>d b. []) []) example_now ''monthly'' 5000 = Inl OverflowError"
  by (simp add: walker_defs)

text \<open>
  C7, as amended. When the start date can be computed, the walker resolves the commits on
  the first of main, master, develop whose verification succeeds, each earlier one
  having failed with \<open>CalledProcessError\<close>; when all three fail so, it returns the
  empty list.
\<close>

theorem branch_discovery:
  assumes "start_date now f n = Inr start"
  shows "(rev_parse_verify g ''main'' = Inr o1 \<longrightarrow>
            get_commits g now f n = resolve_commits g ''main'' start (period_delta f) n)
    \<and> (rev_parse_verify g ''main'' = Inl CalledProcessError
        \<and> rev_parse_verify g ''master'' = Inr o2 \<longrightarrow>
            get_commits g now f n = resolve_commits g ''master'' start (period_delta f) n)
    \<and> (rev_parse_verify g ''main'' = Inl CalledProcessError
        \<and> rev_parse_verify g ''master'' = Inl CalledProcessError
        \<and> rev_parse_verify g ''develop'' = Inr o3 \<longrightarrow>
            get_commits g now f n = resolve_commits g ''develop'' start (period_delta f) n)
    \<and> (rev_parse_verify g ''main'' = Inl CalledProcessError
        \<and> rev_parse_verify g ''master'' = Inl CalledProcessError
        \<and> rev_parse_verify g ''develop'' = Inl CalledProcessError \<longrightarrow>
            get_commits g now f n = Inr [])"
  using assms by (simp add: get_commits_def)

theorem branch_discovery_witness:
  "start_date example_now ''weekly'' 1 = Inr (739914 * day_us + 43200000000)
   \<and> get_commits (example_git [''master'', ''develop'']
         (\<lambda>d b. if b = ''master'' then ''c1'' else ''zz'') []) example_now ''weekly'' 1
       = Inr [(''c1'', 739914), (''c1'', 739921)]
   \<and> get_commits (example_git [] (\<lambda>d b. ''c1'') []) example_now ''weekly'' 1 = Inr []"
proof -
  let ?g = "example_git [''master'', ''develop''] (\<lambda>d b. if b = ''master'' then ''c1'' else ''zz'') []"
  have s: "start_date example_now ''weekly'' 1 = Inr (739914 * day_us + 43200000000)"
    by (simp add: walker_defs)
  have r: "resolve_commits ?g ''master'' (739914 * day_us + 43200000000) (period_delta ''weekly'') 1
      = Inr [(''c1'', 739914), (''c1'', 739921)]"
    by (simp add: walker_defs upt_rec py_strip_def strip_chars_def whitespace_def)
  have "get_commits ?g example_now ''weekly'' 1 = Inr [(''c1'', 739914), (''c1'', 739921)]"
    using branch_discovery [OF s, of ?g _ "''4f2a''"] r by (simp add: example_git_def)
  moreover have "get_commits (example_git [] (\<lambda>d b. ''c1'') []) example_now ''weekly'' 1 = Inr []"
    using branch_discovery [OF s, of "example_git [] (\<lambda>d b. ''c1'') []"] by (simp add: example_git_def)
  ultimately show ?thesis using s by simp
qed

section \<open>Restoring the working tree\<close>

lemma analyze_module_total: "\<exists>t'. analyze_module env path t = Inr t'"
  using count_endpoints_total [of env path] count_inter_service_calls_total [of env path]
    count_dependencies_total [of env path]
  by (auto simp: analyze_module_def)

lemma analyze_service_total: "\<exists>row. analyze_service env repo_path d = Inr row"
  using for_each_total [of "analyze_module env" "module_paths env repo_path" empty_totals]
    analyze_module_total
  by (auto simp: analyze_service_def)

lemma snapshots_restores: "restores (snd (snapshots fs g repo_path cs w)) = restores w"
  by (induction cs arbitrary: w) (auto simp: git_checkout_def split: sum.splits)

text \<open>A run that ends without an exception has restored the head, once.\<close>

lemma run_restores:
  assumes "run fs g now repo_path f n w = (None, w')"
  shows "head w' = head w \<and> restores w' = restores w + 1"
proof -
  from assms obtain cs w1 where "snapshots fs g repo_path cs w = (None, w1)"
    and w': "w' = w1\<lparr>head := head w, restores := restores w1 + 1\<rparr>"
    by (auto simp: run_def git_checkout_def Let_def
        split: sum.splits prod.splits option.splits if_splits)
  with snapshots_restores [of fs g repo_path cs w] show ?thesis by simp
qed

text \<open>
  C1. After every run the head is the one captured before the first snapshot, and the
  restoring checkout has run once. The code breaks this: the restoring checkout is the
  statement after the loop, not a \<open>finally\<close> clause, so when the checkout of the second
  snapshot fails the run ends with the head at the first snapshot's commit and no
  restoring checkout.
\<close>

theorem failed_checkout_leaves_head:
  "fst (run (\<lambda>c. example_env ''repo'')
          (example_git [''main''] (\<lambda>d b. if d < 739920 then ''c1'' else ''c2'') [''c2''])
          example_now ''repo'' ''weekly'' 1 \<lparr>head = ''h0'', rows = [], restores = 0\<rparr>)
     = Some CalledProcessError
   \<and> head (snd (run (\<lambda>c. example_env ''repo'')
          (example_git [''main''] (\<lambda>d b. if d < 739920 then ''c1'' else ''c2'') [''c2''])
          example_now ''repo'' ''weekly'' 1 \<lparr>head = ''h0'', rows = [], restores = 0\<rparr>)) = ''c1''
   \<and> restores (snd (run (\<lambda>c. example_env ''repo'')
          (example_git [''main''] (\<lambda>d b. if d < 739920 then ''c1'' else ''c2'') [''c2''])
          example_now ''repo'' ''weekly'' 1 \<lparr>head = ''h0'', rows = [], restores = 0\<rparr>)) = 0"
proof -
  let ?g = "example_git [''main''] (\<lambda>d b. if d < 739920 then ''c1'' else ''c2'') [''c2'']"
  have a: "get_commits ?g example_now ''weekly'' 1 = Inr [(''c1'', 739914), (''c2'', 739921)]"
    by (simp add: walker_defs upt_rec py_strip_def strip_chars_def whitespace_def)
  obtain row where row: "analyze_service (example_env ''repo'') ''repo'' 739914 = Inr row"
    using analyze_service_total by blast
  have ok: "checkout_ok ?g ''c1''" "\<not> checkout_ok ?g ''c2''"
    by (simp_all add: example_git_def)
  show ?thesis
    by (simp add: run_def a git_checkout_def ok row)
qed

end
